theory Spec2Isabelle
  imports Complex_Main "HOL-Library.Sublist" "HOL-Library.Product_Lexorder" "HOL-Library.Multiset"
begin

section \<open>Strings\<close>

text \<open>
  A Python \<open>str\<close> is modelled as a \<^typ>\<open>string\<close>, one \<^typ>\<open>char\<close> per code point,
  so the model covers the code points U+0000 to U+00FF (Latin-1); \<open>length\<close> counts code
  points as Python's \<open>len\<close> does. \<open>None\<close> arguments, which every function of the source
  first replaces by the empty string (\<open>s or ""\<close>), are the empty string.
\<close>

definition code :: "char \<Rightarrow> nat" where
  "code c = of_char c"

text \<open>\<open>str.isspace\<close> on Latin-1: TAB to CR, FS to US, space, NEL and NBSP. These are the
  characters \<open>str.strip()\<close> removes and the regular expression class \<open>\s\<close> matches.\<close>

definition is_space :: "char \<Rightarrow> bool" where
  "is_space c = (let n = code c in
     (9 \<le> n \<and> n \<le> 13) \<or> (28 \<le> n \<and> n \<le> 32) \<or> n = 133 \<or> n = 160)"

definition is_digit :: "char \<Rightarrow> bool" where
  "is_digit c = (let n = code c in 48 \<le> n \<and> n \<le> 57)"

text \<open>The character class \<open>[a-z0-9]\<close>.\<close>

definition is_lower_alnum :: "char \<Rightarrow> bool" where
  "is_lower_alnum c = (let n = code c in (97 \<le> n \<and> n \<le> 122) \<or> (48 \<le> n \<and> n \<le> 57))"

text \<open>\<open>str.lower\<close> on Latin-1: A to Z, and the accented capitals U+00C0 to U+00DE without
  the multiplication sign U+00D7, move up by 32; every other code point stays.\<close>

definition lower_char :: "char \<Rightarrow> char" where
  "lower_char c = (let n = code c in
     if (65 \<le> n \<and> n \<le> 90) \<or> (192 \<le> n \<and> n \<le> 222 \<and> n \<noteq> 215)
     then char_of (n + 32) else c)"

definition lower :: "string \<Rightarrow> string" where
  "lower s = map lower_char s"

definition strip :: "string \<Rightarrow> string" where
  "strip s = rev (dropWhile is_space (rev (dropWhile is_space s)))"

text \<open>\<open>x in s\<close> on strings: \<open>x\<close> occurs in \<open>s\<close> as a contiguous substring.\<close>

fun contains :: "string \<Rightarrow> string \<Rightarrow> bool" where
  "contains [] x = (x = [])"
| "contains (c # cs) x = (prefix x (c # cs) \<or> contains cs x)"

text \<open>\<open>re.sub(r"[C]+", " ", s)\<close> for a character class \<open>C\<close>: every maximal run of
  characters of the class becomes one space.\<close>

function collapse :: "(char \<Rightarrow> bool) \<Rightarrow> string \<Rightarrow> string" where
  "collapse P [] = []"
| "collapse P (c # cs) =
     (if P c then CHR '' '' # collapse P (dropWhile P cs) else c # collapse P cs)"
  by pat_completeness auto
termination
  by (relation "measure (\<lambda>(P, s). length s)") (auto simp: length_dropWhile_le less_Suc_eq_le)

section \<open>Normalisation (backend.py and scripts/build_index.py, \<open>norm_text\<close>)\<close>

definition norm_text :: "string \<Rightarrow> string" where
  "norm_text s0 =
     (let s = lower s0;
          s = collapse (\<lambda>c. \<not> is_lower_alnum c) s;
          s = strip (collapse is_space s)
      in s)"


section \<open>Calendar dates (Python's \<open>datetime.date\<close>)\<close>

text \<open>The proleptic Gregorian calendar of \<open>datetime.date\<close>: a date is a year in 1..9999, a
  month and a day; its ordinal counts days from 0001-01-01 = 1.\<close>

record date =
  year :: nat
  month :: nat
  day :: nat

datatype py_error = ValueError string | OverflowError | OtherError string

definition is_leap :: "nat \<Rightarrow> bool" where
  "is_leap y = (y mod 4 = 0 \<and> (y mod 100 \<noteq> 0 \<or> y mod 400 = 0))"

definition days_in_month :: "nat \<Rightarrow> nat \<Rightarrow> nat" where
  "days_in_month y m =
     (if m = 2 \<and> is_leap y then 29
      else [0, 31, 28, 31, 30, 31, 30, 31, 31, 30, 31, 30, 31] ! m)"

definition days_before_year :: "nat \<Rightarrow> nat" where
  "days_before_year y0 = (let y = y0 - 1 in y * 365 + y div 4 - y div 100 + y div 400)"

definition days_before_month :: "nat \<Rightarrow> nat \<Rightarrow> nat" where
  "days_before_month y m =
     [0, 0, 31, 59, 90, 120, 151, 181, 212, 243, 273, 304, 334] ! m
       + (if m > 2 \<and> is_leap y then 1 else 0)"

text \<open>The range check of the \<open>date\<close> constructor; outside it the constructor raises
  \<open>ValueError\<close>.\<close>

definition valid_date :: "date \<Rightarrow> bool" where
  "valid_date d = (1 \<le> year d \<and> year d \<le> 9999 \<and> 1 \<le> month d \<and> month d \<le> 12
     \<and> 1 \<le> day d \<and> day d \<le> days_in_month (year d) (month d))"

definition toordinal :: "date \<Rightarrow> nat" where
  "toordinal d = days_before_year (year d) + days_before_month (year d) (month d) + day d"

definition max_ordinal :: nat where
  "max_ordinal = 3652059"

text \<open>\<open>_ord2ymd\<close>, the inverse of the ordinal, for \<open>1 \<le> n\<close>.\<close>

definition fromordinal :: "nat \<Rightarrow> date" where
  "fromordinal n0 =
     (let n = n0 - 1;
          n400 = n div 146097; n = n mod 146097;
          y = n400 * 400 + 1;
          n100 = n div 36524; n = n mod 36524;
          n4 = n div 1461; n = n mod 1461;
          n1 = n div 365; n = n mod 365;
          y = y + n100 * 100 + n4 * 4 + n1
      in if n1 = 4 \<or> n100 = 4 then \<lparr>year = y - 1, month = 12, day = 31\<rparr>
         else
           let leapyear = (n1 = 3 \<and> (n4 \<noteq> 24 \<or> n100 = 3));
               m = (n + 50) div 32;
               preceding = [0, 0, 31, 59, 90, 120, 151, 181, 212, 243, 273, 304, 334] ! m
                             + (if m > 2 \<and> leapyear then 1 else 0)
           in if preceding > n
              then let m' = m - 1;
                       preceding' = preceding -
                         ([0, 31, 28, 31, 30, 31, 30, 31, 31, 30, 31, 30, 31] ! m'
                            + (if m' = 2 \<and> leapyear then 1 else 0))
                   in \<lparr>year = y, month = m', day = n - preceding' + 1\<rparr>
              else \<lparr>year = y, month = m, day = n - preceding + 1\<rparr>)"

text \<open>Dates compare as the tuples (year, month, day).\<close>

definition date_less :: "date \<Rightarrow> date \<Rightarrow> bool" where
  "date_less a b = ((year a, month a, day a) < (year b, month b, day b))"

text \<open>\<open>date + timedelta(days = n)\<close> for \<open>0 \<le> n\<close>: \<open>timedelta\<close> refuses more than
  999999999 days and the sum refuses an ordinal outside 1..3652059, both with
  \<open>OverflowError\<close>.\<close>

definition date_add_days :: "date \<Rightarrow> nat \<Rightarrow> py_error + date" where
  "date_add_days d n =
     (if n > 999999999 then Inl OverflowError
      else let k = toordinal d + n
           in if 0 < k \<and> k \<le> max_ordinal then Inr (fromordinal k) else Inl OverflowError)"

subsection \<open>Decimal digits\<close>

definition digit_val :: "char \<Rightarrow> nat" where
  "digit_val c = code c - 48"

definition digits_val :: "string \<Rightarrow> nat" where
  "digits_val s = foldl (\<lambda>acc c. 10 * acc + digit_val c) 0 s"

definition digit_char :: "nat \<Rightarrow> char" where
  "digit_char n = char_of (48 + n mod 10)"

text \<open>\<open>str(n)\<close> for a natural number, and \<open>%0wd\<close>, which pads it with zeros on the left
  to the width \<open>w\<close>.\<close>

fun decimal :: "nat \<Rightarrow> string" where
  "decimal n = (if n < 10 then [digit_char n] else decimal (n div 10) @ [digit_char n])"

declare decimal.simps [simp del]

definition zero_pad :: "nat \<Rightarrow> nat \<Rightarrow> string" where
  "zero_pad w n = (let s = decimal n in replicate (w - length s) (CHR ''0'') @ s)"

definition isoformat :: "date \<Rightarrow> string" where
  "isoformat d = zero_pad 4 (year d) @ ''-'' @ zero_pad 2 (month d) @ ''-'' @ zero_pad 2 (day d)"

subsection \<open>\<open>datetime.strptime(s, "%Y-%m-%d")\<close>\<close>

text \<open>
  The format compiles to the regular expression
  \<open>(\d\d\d\d)-(1[0-2]|0[1-9]|[1-9])-(3[0-1]|[1-2]\d|0[1-9]|[1-9]| [1-9])\<close>, matched at the
  start of the string; alternatives are tried in order. A string the expression does
  not match, one with characters left after the match, and fields that are no date of
  the calendar all raise \<open>ValueError\<close> (here \<open>None\<close>).
\<close>

definition is_digit19 :: "char \<Rightarrow> bool" where
  "is_digit19 c = (is_digit c \<and> c \<noteq> CHR ''0'')"

text \<open>The ways the month group can match a prefix, in the order the expression tries
  them: the value and the rest of the string.\<close>

definition month_alts :: "string \<Rightarrow> (nat \<times> string) list" where
  "month_alts s =
     (case s of
        c1 # c2 # t \<Rightarrow>
          (if c1 = CHR ''1'' \<and> c2 \<in> set ''012'' then [(10 + digit_val c2, t)] else [])
          @ (if c1 = CHR ''0'' \<and> is_digit19 c2 then [(digit_val c2, t)] else [])
          @ (if is_digit19 c1 then [(digit_val c1, c2 # t)] else [])
      | [c1] \<Rightarrow> (if is_digit19 c1 then [(digit_val c1, [])] else [])
      | [] \<Rightarrow> [])"

definition day_alts :: "string \<Rightarrow> (nat \<times> string) list" where
  "day_alts s =
     (case s of
        c1 # c2 # t \<Rightarrow>
          (if c1 = CHR ''3'' \<and> c2 \<in> set ''01'' then [(30 + digit_val c2, t)] else [])
          @ (if c1 \<in> set ''12'' \<and> is_digit c2 then [(10 * digit_val c1 + digit_val c2, t)] else [])
          @ (if c1 = CHR ''0'' \<and> is_digit19 c2 then [(digit_val c2, t)] else [])
          @ (if is_digit19 c1 then [(digit_val c1, c2 # t)] else [])
          @ (if c1 = CHR '' '' \<and> is_digit19 c2 then [(digit_val c2, t)] else [])
      | [c1] \<Rightarrow> (if is_digit19 c1 then [(digit_val c1, [])] else [])
      | [] \<Rightarrow> [])"

text \<open>The first way the expression matches: month, day and the unconverted rest.\<close>

fun match_month_day :: "(nat \<times> string) list \<Rightarrow> (nat \<times> nat \<times> string) option" where
  "match_month_day [] = None"
| "match_month_day ((m, r) # alts) =
     (case r of
        c # r' \<Rightarrow>
          (if c = CHR ''-''
           then (case day_alts r' of
                   (d, rest) # _ \<Rightarrow> Some (m, d, rest)
                 | [] \<Rightarrow> match_month_day alts)
           else match_month_day alts)
      | [] \<Rightarrow> match_month_day alts)"

definition strptime :: "string \<Rightarrow> date option" where
  "strptime s =
     (case s of
        y1 # y2 # y3 # y4 # c # r \<Rightarrow>
          if is_digit y1 \<and> is_digit y2 \<and> is_digit y3 \<and> is_digit y4 \<and> c = CHR ''-''
          then (case match_month_day (month_alts r) of
                  None \<Rightarrow> None
                | Some (m, d, rest) \<Rightarrow>
                    if rest \<noteq> [] then None
                    else let dt = \<lparr>year = digits_val [y1, y2, y3, y4], month = m, day = d\<rparr>
                         in if valid_date dt then Some dt else None)
          else None
      | _ \<Rightarrow> None)"


section \<open>The query engine (backend.py)\<close>

subsection \<open>Pure helpers\<close>

text \<open>The maximal runs of digits of a string: \<open>re.split(r"[^0-9]+", s)\<close> without its
  empty pieces.\<close>

function digit_runs :: "string \<Rightarrow> string list" where
  "digit_runs [] = []"
| "digit_runs (c # cs) =
     (if is_digit c then takeWhile is_digit (c # cs) # digit_runs (dropWhile is_digit cs)
      else digit_runs cs)"
  by pat_completeness auto
termination
  by (relation "measure length") (auto simp: length_dropWhile_le less_Suc_eq_le)

definition parse_classes :: "string \<Rightarrow> string list" where
  "parse_classes s = (if s = [] then [] else digit_runs s)"

text \<open>\<open>now_date()\<close>, the current UTC date, is a parameter \<open>today\<close> of every function that
  reads the clock.\<close>

definition years_since :: "date \<Rightarrow> string \<Rightarrow> int option" where
  "years_since today date_str =
     (if date_str = [] then None
      else case strptime date_str of
             None \<Rightarrow> None
           | Some d \<Rightarrow>
               let delta = int (toordinal today) - int (toordinal d)
               in if delta < 0 then Some 0 else Some (delta div 365))"

definition inactive_statuses :: "string list" where
  "inactive_statuses = [''dead'', ''expired'', ''withdrawn'', ''revoked'', ''cancelled'', ''removed'']"

definition is_active :: "date \<Rightarrow> string \<Rightarrow> string \<Rightarrow> bool" where
  "is_active today status expired =
     (let status_norm = lower (strip status)
      in if status_norm \<in> set inactive_statuses then False
         else if expired \<noteq> []
              then (case strptime expired of
                      Some exp_date \<Rightarrow> if date_less exp_date today then False else True
                    | None \<Rightarrow> True)
              else True)"

definition patent_active :: "string \<Rightarrow> string \<Rightarrow> bool" where
  "patent_active status date_not_in_force =
     (let s = lower (strip status)
      in if date_not_in_force \<noteq> [] then False
         else if list_ex (contains s) [''lapsed'', ''ceased'', ''withdrawn'', ''revoked''] then False
         else True)"

definition resolve_countries :: "string \<Rightarrow> string list" where
  "resolve_countries country =
     (let c = lower (strip country)
      in if c \<in> set [''all'', ''all countries'', ''any'']
         then [''United Kingdom'', ''European Union'', ''United States'', ''Rest of World'']
         else if c \<in> set [''uk'', ''united kingdom'', ''uk only''] then [''United Kingdom'']
         else if c \<in> set [''eu'', ''european union'', ''eu only''] then [''European Union'']
         else if c \<in> set [''us'', ''united states'', ''us only''] then [''United States'']
         else if c \<in> set [''uk & eu'', ''uk and eu'', ''uk+eu'']
         then [''United Kingdom'', ''European Union'']
         else if c \<in> set [''rest of world'', ''row'', ''world''] then [''Rest of World'']
         else [country])"

subsection \<open>Binary64 arithmetic\<close>

text \<open>The integer nearest to \<open>x\<close>, a tie going to the even one.\<close>

definition round_half_even :: "rat \<Rightarrow> int" where
  "round_half_even x =
     (let f = \<lfloor>x\<rfloor>; d = x - of_int f
      in if d < 1 / 2 then f else if d > 1 / 2 then f + 1 else if even f then f else f + 1)"

text \<open>A float is a finite binary64 value, given as the rational number it stands for, an
  infinity or a NaN. The sign of a zero is not kept: nothing below reads it.\<close>

datatype pyfloat = Finite rat | PosInf | NegInf | NaN

definition pow2 :: "int \<Rightarrow> rat" where
  "pow2 e = (if e \<ge> 0 then 2 ^ nat e else 1 / 2 ^ nat (- e))"

fun bit_length :: "nat \<Rightarrow> nat" where
  "bit_length n = (if n = 0 then 0 else 1 + bit_length (n div 2))"

text \<open>The exponent \<open>e\<close> with \<open>2 ^ e \<le> a / b < 2 ^ (e + 1)\<close>, for positive \<open>a\<close> and \<open>b\<close>.\<close>

definition floor_log2 :: "nat \<Rightarrow> nat \<Rightarrow> int" where
  "floor_log2 a b =
     (let e0 = int (bit_length a) - int (bit_length b)
      in if of_nat a / of_nat b \<ge> pow2 e0 then e0 else e0 - 1)"

text \<open>The binary64 value nearest to \<open>a / b\<close>, ties to even: 53 significant bits, the
  least exponent -1022 (below it the subnormal values), and an infinity from
  \<open>2 ^ 1024\<close> on.\<close>

definition round_binary64 :: "nat \<Rightarrow> nat \<Rightarrow> pyfloat" where
  "round_binary64 a b =
     (if a = 0 then Finite 0
      else let e = max (floor_log2 a b) (- 1022);
               ulp = pow2 (e - 52);
               v = of_int (round_half_even (of_nat a / of_nat b / ulp)) * ulp
           in if v \<ge> pow2 1024 then PosInf else Finite v)"

subsection \<open>\<open>difflib.SequenceMatcher(None, a, b).ratio()\<close>\<close>

text \<open>
  With no junk predicate, the only elements kept out of the index of \<open>b\<close> are the
  popular ones: when \<open>b\<close> has at least 200 elements, those occurring more than
  \<open>len(b) // 100 + 1\<close> times.
\<close>

definition popular :: "string \<Rightarrow> char \<Rightarrow> bool" where
  "popular b c = (length b \<ge> 200 \<and> count_list b c > length b div 100 + 1)"

text \<open>One pass of the inner loop of \<open>find_longest_match\<close>, for the element \<open>a[i]\<close>: \<open>j\<close>
  runs up through the indexed positions of \<open>b\<close> inside the window; \<open>j2len\<close> holds the
  lengths of the matches ending in the previous row (0 where the dictionary has no
  entry), \<open>new\<close> those of this row.\<close>

fun flm_row :: "string \<Rightarrow> string \<Rightarrow> nat \<Rightarrow> (nat \<Rightarrow> nat) \<Rightarrow> nat list
    \<Rightarrow> (nat \<times> nat \<times> nat) \<times> (nat \<Rightarrow> nat) \<Rightarrow> (nat \<times> nat \<times> nat) \<times> (nat \<Rightarrow> nat)" where
  "flm_row a b i j2len [] acc = acc"
| "flm_row a b i j2len (j # js) ((besti, bestj, bestsize), new) =
     (if b ! j = a ! i \<and> \<not> popular b (a ! i)
      then let k = (if j = 0 then 0 else j2len (j - 1)) + 1
           in flm_row a b i j2len js
                (if k > bestsize then (i + 1 - k, j + 1 - k, k) else (besti, bestj, bestsize),
                 new(j := k))
      else flm_row a b i j2len js ((besti, bestj, bestsize), new))"

fun flm_rows :: "string \<Rightarrow> string \<Rightarrow> nat \<Rightarrow> nat \<Rightarrow> nat list
    \<Rightarrow> (nat \<times> nat \<times> nat) \<times> (nat \<Rightarrow> nat) \<Rightarrow> (nat \<times> nat \<times> nat)" where
  "flm_rows a b blo bhi [] (best, j2len) = best"
| "flm_rows a b blo bhi (i # is) (best, j2len) =
     flm_rows a b blo bhi is (flm_row a b i j2len [blo..<bhi] (best, \<lambda>_. 0))"

function extend_left :: "string \<Rightarrow> string \<Rightarrow> nat \<Rightarrow> nat \<Rightarrow> nat \<times> nat \<times> nat \<Rightarrow> nat \<times> nat \<times> nat" where
  "extend_left a b alo blo (i, j, k) =
     (if i > alo \<and> j > blo \<and> a ! (i - 1) = b ! (j - 1)
      then extend_left a b alo blo (i - 1, j - 1, k + 1) else (i, j, k))"
  by pat_completeness auto
termination
  by (relation "measure (\<lambda>(a, b, alo, blo, i, j, k). i)") auto

function extend_right :: "string \<Rightarrow> string \<Rightarrow> nat \<Rightarrow> nat \<Rightarrow> nat \<times> nat \<times> nat \<Rightarrow> nat \<times> nat \<times> nat" where
  "extend_right a b ahi bhi (i, j, k) =
     (if i + k < ahi \<and> j + k < bhi \<and> a ! (i + k) = b ! (j + k)
      then extend_right a b ahi bhi (i, j, k + 1) else (i, j, k))"
  by pat_completeness auto
termination
  by (relation "measure (\<lambda>(a, b, ahi, bhi, i, j, k). ahi - (i + k))") auto

text \<open>\<open>find_longest_match(alo, ahi, blo, bhi)\<close>: the longest block of \<open>a[alo:ahi]\<close> and
  \<open>b[blo:bhi]\<close> built from indexed elements, the earliest in \<open>a\<close> and then in \<open>b\<close>,
  extended on both sides over equal elements. The two closing loops of the source
  extend over junk only, and there is none.\<close>

definition find_longest_match :: "string \<Rightarrow> string \<Rightarrow> nat \<Rightarrow> nat \<Rightarrow> nat \<Rightarrow> nat \<Rightarrow> nat \<times> nat \<times> nat" where
  "find_longest_match a b alo ahi blo bhi =
     extend_right a b ahi bhi
       (extend_left a b alo blo
          (flm_rows a b blo bhi [alo..<ahi] ((alo, blo, 0), \<lambda>_. 0)))"


text \<open>A block found in a window lies inside the window; this is what makes the recursion
  of \<open>get_matching_blocks\<close> end.\<close>

lemma flm_row_inv:
  assumes "alo \<le> i" "\<forall>j. j2len j \<le> i - alo"
    and "alo \<le> fst best" "fst best + snd (snd best) \<le> i + 1"
  shows "alo \<le> fst (fst (flm_row a b i j2len js (best, new)))
       \<and> fst (fst (flm_row a b i j2len js (best, new)))
           + snd (snd (fst (flm_row a b i j2len js (best, new)))) \<le> i + 1"
  using assms
proof (induction js arbitrary: best new)
  case Nil
  then show ?case by simp
next
  case (Cons j js)
  obtain bi bj bk where best: "best = (bi, bj, bk)" by (cases best) auto
  have k: "(if j = 0 then 0 else j2len (j - 1)) + 1 \<le> i + 1 - alo"
  proof -
    have "j2len (j - 1) \<le> i - alo" using Cons.prems(2) by blast
    then show ?thesis using Cons.prems(1) by auto
  qed
  show ?case
  proof (cases "b ! j = a ! i \<and> \<not> popular b (a ! i)")
    case False
    then have eq: "flm_row a b i j2len (j # js) (best, new) = flm_row a b i j2len js (best, new)"
      using best by auto
    show ?thesis unfolding eq by (rule Cons.IH[OF Cons.prems])
  next
    case True
    let ?k = "(if j = 0 then 0 else j2len (j - 1)) + 1"
    let ?best' = "if ?k > bk then (i + 1 - ?k, j + 1 - ?k, ?k) else (bi, bj, bk)"
    have 1: "alo \<le> fst ?best'" using k Cons.prems best by auto
    have 2: "fst ?best' + snd (snd ?best') \<le> i + 1" using k Cons.prems best by auto
    have eq: "flm_row a b i j2len (j # js) (best, new) = flm_row a b i j2len js (?best', new(j := ?k))"
      using True best by (simp add: Let_def)
    show ?thesis unfolding eq by (rule Cons.IH[OF Cons.prems(1,2) 1 2])
  qed
qed

lemma flm_row_new:
  assumes "alo \<le> i" "\<forall>j. j2len j \<le> i - alo" "\<forall>j. new j \<le> i + 1 - alo"
  shows "\<forall>j'. snd (flm_row a b i j2len js (best, new)) j' \<le> i + 1 - alo"
  using assms
proof (induction js arbitrary: best new)
  case Nil
  then show ?case by simp
next
  case (Cons j js)
  obtain bi bj bk where best: "best = (bi, bj, bk)" by (cases best) auto
  have k: "(if j = 0 then 0 else j2len (j - 1)) + 1 \<le> i + 1 - alo"
  proof -
    have "j2len (j - 1) \<le> i - alo" using Cons.prems(2) by blast
    then show ?thesis using Cons.prems(1) by auto
  qed
  show ?case
  proof (cases "b ! j = a ! i \<and> \<not> popular b (a ! i)")
    case False
    then have eq: "flm_row a b i j2len (j # js) (best, new) = flm_row a b i j2len js (best, new)"
      using best by auto
    show ?thesis unfolding eq by (rule Cons.IH[OF Cons.prems])
  next
    case True
    let ?k = "(if j = 0 then 0 else j2len (j - 1)) + 1"
    let ?best' = "if ?k > bk then (i + 1 - ?k, j + 1 - ?k, ?k) else (bi, bj, bk)"
    have n: "\<forall>j'. (new(j := ?k)) j' \<le> i + 1 - alo" using k Cons.prems(3) by auto
    have eq: "flm_row a b i j2len (j # js) (best, new) = flm_row a b i j2len js (?best', new(j := ?k))"
      using True best by (simp add: Let_def)
    show ?thesis unfolding eq by (rule Cons.IH[OF Cons.prems(1,2) n])
  qed
qed

lemma flm_rows_inv:
  assumes "alo \<le> m" "m \<le> ahi" "\<forall>j. j2len j \<le> m - alo"
    and "alo \<le> fst best" "fst best + snd (snd best) \<le> m"
  shows "alo \<le> fst (flm_rows a b blo bhi [m..<ahi] (best, j2len))
       \<and> fst (flm_rows a b blo bhi [m..<ahi] (best, j2len))
           + snd (snd (flm_rows a b blo bhi [m..<ahi] (best, j2len))) \<le> ahi"
  using assms
proof (induction "ahi - m" arbitrary: m best j2len)
  case 0
  then show ?case by simp
next
  case (Suc n)
  then have lt: "m < ahi" by simp
  let ?r = "flm_row a b m j2len [blo..<bhi] (best, \<lambda>_. 0)"
  have up: "[m..<ahi] = m # [Suc m..<ahi]" using lt by (simp add: upt_conv_Cons)
  have step: "flm_rows a b blo bhi [m..<ahi] (best, j2len)
      = flm_rows a b blo bhi [Suc m..<ahi] (fst ?r, snd ?r)"
    by (simp add: up)
  have b2: "fst best + snd (snd best) \<le> m + 1" using Suc.prems by simp
  from flm_row_inv[OF Suc.prems(1) Suc.prems(3) Suc.prems(4) b2, of a b "[blo..<bhi]" "\<lambda>_. 0"]
  have i1: "alo \<le> fst (fst ?r)" and i2: "fst (fst ?r) + snd (snd (fst ?r)) \<le> Suc m" by auto
  from flm_row_new[OF Suc.prems(1) Suc.prems(3), of "\<lambda>_. 0" a b "[blo..<bhi]" best]
  have n: "\<forall>j. snd ?r j \<le> Suc m - alo" by simp
  have "n = ahi - Suc m" using Suc.hyps(2) by simp
  from Suc.hyps(1)[OF this _ _ n i1 i2] Suc.prems lt
  show ?case unfolding step by simp
qed

lemma extend_left_inv:
  "alo \<le> i \<Longrightarrow> extend_left a b alo blo (i, j, k) = (i', j', k') \<Longrightarrow> alo \<le> i' \<and> i' + k' = i + k"
proof (induction a b alo blo "(i, j, k)" arbitrary: i j k rule: extend_left.induct)
  case (1 a b alo blo i j k)
  show ?case
  proof (cases "i > alo \<and> j > blo \<and> a ! (i - 1) = b ! (j - 1)")
    case True
    then have "extend_left a b alo blo (i - 1, j - 1, k + 1) = (i', j', k')" using 1(3) by simp
    from 1(1)[OF True _ this] True show ?thesis by auto
  next
    case False
    then show ?thesis using 1(2,3) by auto
  qed
qed

lemma extend_right_inv:
  "i + k \<le> ahi \<Longrightarrow> extend_right a b ahi bhi (i, j, k) = (i', j', k') \<Longrightarrow> i' = i \<and> k \<le> k' \<and> i' + k' \<le> ahi"
proof (induction a b ahi bhi "(i, j, k)" arbitrary: i j k rule: extend_right.induct)
  case (1 a b ahi bhi i j k)
  show ?case
  proof (cases "i + k < ahi \<and> j + k < bhi \<and> a ! (i + k) = b ! (j + k)")
    case True
    then have "extend_right a b ahi bhi (i, j, k + 1) = (i', j', k')" using 1(3) by simp
    from 1(1)[OF True _ this] True show ?thesis by auto
  next
    case False
    then show ?thesis using 1(2,3) by auto
  qed
qed

lemma find_longest_match_bounds:
  assumes "find_longest_match a b alo ahi blo bhi = (i, j, k)" "k \<noteq> 0"
  shows "alo \<le> i \<and> i + k \<le> ahi"
proof (cases "alo \<le> ahi")
  case True
  let ?r = "flm_rows a b blo bhi [alo..<ahi] ((alo, blo, 0), \<lambda>_. 0)"
  obtain i1 j1 k1 where r: "?r = (i1, j1, k1)" by (cases ?r) auto
  from flm_rows_inv[OF le_refl True, of "\<lambda>_. 0" "(alo, blo, 0)" a b blo bhi] r
  have 1: "alo \<le> i1" "i1 + k1 \<le> ahi" by auto
  obtain i2 j2 k2 where l: "extend_left a b alo blo (i1, j1, k1) = (i2, j2, k2)"
    by (cases "extend_left a b alo blo (i1, j1, k1)") auto
  from extend_left_inv[OF 1(1) l] 1 have 2: "alo \<le> i2" "i2 + k2 \<le> ahi" by auto
  have "extend_right a b ahi bhi (i2, j2, k2) = (i, j, k)"
    using assms(1) r l by (simp add: find_longest_match_def)
  from extend_right_inv[OF 2(2) this] 2 show ?thesis by auto
next
  case False
  then have "find_longest_match a b alo ahi blo bhi = (alo, blo, 0)"
    by (simp add: find_longest_match_def)
  with assms show ?thesis by simp
qed



text \<open>The total size of the blocks of \<open>get_matching_blocks\<close>: the longest block of the
  window, then the blocks of the windows to its left and to its right. The source keeps
  the pending windows in a queue; the sum does not depend on the order they are taken in.\<close>

function matching_size :: "string \<Rightarrow> string \<Rightarrow> nat \<Rightarrow> nat \<Rightarrow> nat \<Rightarrow> nat \<Rightarrow> nat" where
  "matching_size a b alo ahi blo bhi =
     (case find_longest_match a b alo ahi blo bhi of
        (i, j, k) \<Rightarrow>
          if k = 0 then 0
          else k + (if alo < i \<and> blo < j then matching_size a b alo i blo j else 0)
                 + (if i + k < ahi \<and> j + k < bhi then matching_size a b (i + k) ahi (j + k) bhi else 0))"
  by pat_completeness auto
termination
proof (relation "measure (\<lambda>(a, b, alo, ahi, blo, bhi). ahi - alo)", goal_cases)
  case 1
  then show ?case by simp
next
  case (2 a b alo ahi blo bhi i y j k)
  then have "find_longest_match a b alo ahi blo bhi = (i, j, k)" by simp
  from find_longest_match_bounds[OF this] 2 show ?case by auto
next
  case (3 a b alo ahi blo bhi i y j k)
  then have "find_longest_match a b alo ahi blo bhi = (i, j, k)" by simp
  from find_longest_match_bounds[OF this] 3 show ?case by auto
qed

declare matching_size.simps [simp del]


text \<open>\<open>similarity(a, b)\<close>, as the exact value of the float returned. The ratio is
  \<open>2.0 * matches / length\<close>: the product is exact, and the quotient is the binary64 value
  nearest to it. It is at most 1, so the quotient is finite.\<close>

definition similarity :: "string \<Rightarrow> string \<Rightarrow> rat" where
  "similarity a b =
     (if a = [] \<or> b = [] then 0
      else if a = b then 1
      else case round_binary64 (2 * matching_size a b 0 (length a) 0 (length b)) (length a + length b) of
             Finite v \<Rightarrow> v
           | _ \<Rightarrow> 0)"

text \<open>\<open>round(x, 4)\<close> of a float given by its exact value: Python rounds the exact value
  to four decimal places, a tie going to the even last digit, and returns the float
  nearest to that decimal number. The result is given as the decimal number, which
  the float is printed as.\<close>

definition round4 :: "rat \<Rightarrow> rat" where
  "round4 x = of_int (round_half_even (x * 10000)) / 10000"


subsection \<open>The index\<close>

text \<open>
  The two tables of \<open>setup_schema\<close>. A row is its \<open>id\<close> (the integer primary key) and its
  text columns; every column the ingestion writes is a string, never \<open>NULL\<close>. A table
  is the list of its rows in the order of their insertion, which is that of their ids.
\<close>

record mark =
  reg_no :: string
  mark_text :: string
  mark_text_norm :: string
  owner_name :: string
  owner_type :: string
  country :: string
  status :: string
  category :: string
  mark_type :: string
  filed :: string
  published :: string
  registered :: string
  expired :: string
  renewal_due :: string
  class_codes :: string
  goods_services :: string
  source_file :: string

record patent =
  application_number :: string
  publication_number :: string
  ipsum :: string
  earliest_filing_date :: string
  filing_date :: string
  lodged_date :: string
  publication_a_date :: string
  publication_b_date :: string
  applicant_name :: string
  applicant_country_code :: string
  applicant_postcode :: string
  applicant_county :: string
  applicant_region :: string
  applicant_country :: string
  ipc7 :: string
  ipc8 :: string
  pct_filing_date :: string
  pct_publication_date :: string
  last_renewal_date :: string
  last_annuity_year :: string
  date_not_in_force :: string
  reason_not_in_force :: string
  patent_status :: string
  patent_source_file :: string

type_synonym 'r table = "(nat \<times> 'r) list"

record db =
  marks :: "mark table"
  patents :: "patent table"

text \<open>
  A \<open>SELECT\<close> with no \<open>ORDER BY\<close> gives its rows in the order in which the plan that
  SQLite chooses for the statement visits the table: by id when it scans the table, by
  key and then id when it reads an index (of the indexes of \<open>setup_schema\<close>, the one on
  \<open>mark_text_norm\<close> serves the exact tier and the one on \<open>country\<close> the prefix tier). The
  statement does not fix that order, and \<open>LIMIT\<close> cuts the rows in that order. So the
  order is an argument of the model: a scan lists the rows of a table in the order of
  the visit, each row once, and a plan has one scan for each of the three statements
  that return rows.
\<close>

type_synonym 'r scan = "'r table \<Rightarrow> 'r table"

record plan =
  exact_scan :: "mark scan"
  prefix_scan :: "mark scan"
  patent_scan :: "patent scan"


text \<open>SQL \<open>LIMIT n\<close>: a negative \<open>n\<close> is no limit.\<close>

definition sql_limit :: "int \<Rightarrow> 'a list \<Rightarrow> 'a list" where
  "sql_limit n rows = (if n < 0 then rows else take (nat n) rows)"

text \<open>SQL \<open>text LIKE pattern\<close> under \<open>PRAGMA case_sensitive_like=ON\<close> (set by \<open>open_db\<close>) and
  without an escape character: \<open>%\<close> matches any run of characters, \<open>_\<close> any one
  character, every other character itself.\<close>

fun sql_like :: "string \<Rightarrow> string \<Rightarrow> bool" where
  "sql_like [] s = (s = [])"
| "sql_like (p # ps) [] = (p = CHR ''%'' \<and> sql_like ps [])"
| "sql_like (p # ps) (c # cs) =
     (if p = CHR ''%'' then sql_like ps (c # cs) \<or> sql_like (p # ps) cs
      else (p = CHR ''_'' \<or> p = c) \<and> sql_like ps cs)"

definition query_candidates :: "plan \<Rightarrow> db \<Rightarrow> string \<Rightarrow> string \<Rightarrow> int \<Rightarrow> (nat \<times> mark) list" where
  "query_candidates pl con term_norm country_sel limit =
     (let countries = resolve_countries country_sel;
          rows = sql_limit limit
                   (filter (\<lambda>(i, m). country m \<in> set countries \<and> mark_text_norm m = term_norm)
                      (exact_scan pl (marks con)))
      in if rows \<noteq> [] then rows
         else if length term_norm < 4 then []
         else let like = term_norm @ ''%'';
                  rows = sql_limit limit
                           (filter (\<lambda>(i, m). country m \<in> set countries \<and> sql_like like (mark_text_norm m))
                              (prefix_scan pl (marks con)))
              in if rows \<noteq> [] then rows else [])"

definition query_patents :: "plan \<Rightarrow> db \<Rightarrow> string \<Rightarrow> int \<Rightarrow> (nat \<times> patent) list" where
  "query_patents pl con term_norm limit =
     (if length term_norm < 4 then []
      else let like = term_norm @ ''%''
           in sql_limit limit
                (filter (\<lambda>(i, p). sql_like like (applicant_name p)
                                 \<or> sql_like like (application_number p)
                                 \<or> sql_like like (publication_number p))
                   (patent_scan pl (patents con))))"

text \<open>\<open>country_available\<close> asks for one row only, and reads whether there is one: the
  order of the visit does not matter to it.\<close>

definition country_available :: "db \<Rightarrow> string \<Rightarrow> bool" where
  "country_available con country_sel =
     (let countries = resolve_countries country_sel
      in sql_limit 1 (filter (\<lambda>(i, m). country m \<in> set countries) (marks con)) \<noteq> [])"

subsection \<open>Summaries and risk\<close>

text \<open>The dictionaries built by \<open>summarize_mark\<close> and \<open>summarize_patent\<close>, one field per
  key. A similarity is the decimal number of four places that \<open>round(sim, 4)\<close> gives;
  the Python float is the binary64 value nearest to it.\<close>

record mark_summary =
  ms_reg_no :: string
  ms_mark_text :: string
  ms_owner_name :: string
  ms_owner_type :: string
  ms_country :: string
  ms_status :: string
  ms_category :: string
  ms_mark_type :: string
  ms_filed :: string
  ms_registered :: string
  ms_expired :: string
  ms_renewal_due :: string
  ms_age_years :: "int option"
  ms_active :: bool
  ms_class_codes :: "string list"
  ms_goods_services :: string
  ms_similarity :: rat

record patent_summary =
  ps_application_number :: string
  ps_publication_number :: string
  ps_applicant_name :: string
  ps_applicant_country :: string
  ps_ipc7 :: string
  ps_ipc8 :: string
  ps_status :: string
  ps_filing_date :: string
  ps_earliest_filing_date :: string
  ps_publication_a_date :: string
  ps_publication_b_date :: string
  ps_last_renewal_date :: string
  ps_date_not_in_force :: string
  ps_reason_not_in_force :: string
  ps_active :: bool
  ps_age_years :: "int option"
  ps_similarity :: rat

text \<open>\<open>s.split(sep)\<close> for a one-character separator.\<close>

fun split_on :: "char \<Rightarrow> string \<Rightarrow> string list" where
  "split_on sep [] = [[]]"
| "split_on sep (c # cs) =
     (if c = sep then [] # split_on sep cs
      else case split_on sep cs of
             w # ws \<Rightarrow> (c # w) # ws
           | [] \<Rightarrow> [[c]])"

definition summarize_mark :: "date \<Rightarrow> nat \<times> mark \<Rightarrow> string \<Rightarrow> mark_summary" where
  "summarize_mark today row term_norm =
     (let r = snd row;
          mark_norm = norm_text (mark_text r);
          sim = similarity term_norm mark_norm
      in \<lparr>ms_reg_no = reg_no r,
          ms_mark_text = mark_text r,
          ms_owner_name = owner_name r,
          ms_owner_type = owner_type r,
          ms_country = country r,
          ms_status = status r,
          ms_category = category r,
          ms_mark_type = mark_type r,
          ms_filed = filed r,
          ms_registered = registered r,
          ms_expired = expired r,
          ms_renewal_due = renewal_due r,
          ms_age_years = (if filed r \<noteq> [] then years_since today (filed r) else None),
          ms_active = is_active today (status r) (expired r),
          ms_class_codes = (if class_codes r \<noteq> [] then split_on (CHR '','') (class_codes r) else []),
          ms_goods_services = goods_services r,
          ms_similarity = round4 sim\<rparr>)"

definition summarize_patent :: "date \<Rightarrow> nat \<times> patent \<Rightarrow> string \<Rightarrow> patent_summary" where
  "summarize_patent today row term_norm =
     (let r = snd row;
          applicant = applicant_name r;
          sim = (if applicant \<noteq> [] then similarity term_norm (norm_text applicant) else 0);
          filed = filing_date r
      in \<lparr>ps_application_number = application_number r,
          ps_publication_number = publication_number r,
          ps_applicant_name = applicant,
          ps_applicant_country =
            (if applicant_country r \<noteq> [] then applicant_country r else applicant_country_code r),
          ps_ipc7 = ipc7 r,
          ps_ipc8 = ipc8 r,
          ps_status = patent_status r,
          ps_filing_date = filed,
          ps_earliest_filing_date = earliest_filing_date r,
          ps_publication_a_date = publication_a_date r,
          ps_publication_b_date = publication_b_date r,
          ps_last_renewal_date = last_renewal_date r,
          ps_date_not_in_force = date_not_in_force r,
          ps_reason_not_in_force = reason_not_in_force r,
          ps_active = patent_active (patent_status r) (date_not_in_force r),
          ps_age_years = (if filed \<noteq> [] then years_since today filed else None),
          ps_similarity = round4 sim\<rparr>)"

text \<open>The loop of \<open>score_risk\<close>: the two counters after one more match. A similarity and
  the literals 0.92 and 0.85 are decimal numbers of at most four places, which Python
  compares by their nearest binary64 values; rounding to the nearest binary64 value
  keeps the order of such numbers and sends no two of them to one value, so the
  comparisons are those of the decimal numbers.\<close>

definition score_step :: "string list \<Rightarrow> nat \<times> nat \<Rightarrow> mark_summary \<Rightarrow> nat \<times> nat" where
  "score_step class_filter counts m =
     (case counts of (active_strong, active_medium) \<Rightarrow>
        if class_filter \<noteq> [] \<and> set class_filter \<inter> set (ms_class_codes m) = {}
        then (active_strong, active_medium)
        else if ms_active m \<and> ms_similarity m \<ge> 92 / 100 then (active_strong + 1, active_medium)
        else if ms_active m \<and> ms_similarity m \<ge> 85 / 100 then (active_strong, active_medium + 1)
        else (active_strong, active_medium))"

definition score_counts :: "mark_summary list \<Rightarrow> string list \<Rightarrow> nat \<times> nat" where
  "score_counts matches class_filter = foldl (score_step class_filter) (0, 0) matches"

definition score_risk :: "mark_summary list \<Rightarrow> string list \<Rightarrow> string" where
  "score_risk matches class_filter =
     (case score_counts matches class_filter of (active_strong, active_medium) \<Rightarrow>
        if active_strong > 0 then ''high''
        else if active_medium > 0 then ''medium''
        else ''low'')"

subsection \<open>The request handler \<open>check\<close>\<close>

text \<open>\<open>xs.sort(key=k, reverse=True)\<close>: descending by key, equal keys in their old order.\<close>

definition sort_desc :: "('a \<Rightarrow> 'k::linorder) \<Rightarrow> 'a list \<Rightarrow> 'a list" where
  "sort_desc k xs = rev (sort_key k (rev xs))"

text \<open>The JSON payload, with a missing or empty field as the empty string, and the
  answer of \<open>ensure_index\<close> as the argument \<open>idx\<close>: the error message, or the index. The
  date of the day and the plan of the queries are arguments too.\<close>

record request =
  req_trademark :: string
  req_country :: string
  req_classes :: string
  req_include_patents :: bool

record response =
  resp_trademark :: string
  resp_country :: string
  resp_classes :: "string list"
  resp_risk_level :: string
  resp_match_count :: nat
  resp_patent_count :: nat
  resp_similar_marks :: "mark_summary list"
  resp_patents :: "patent_summary list"

definition check :: "date \<Rightarrow> plan \<Rightarrow> string + db \<Rightarrow> request \<Rightarrow> string + response" where
  "check today pl idx payload =
     (case idx of
        Inl msg \<Rightarrow> Inl msg
      | Inr con \<Rightarrow>
          let term = strip (req_trademark payload);
              country_sel = strip (req_country payload);
              class_filter = parse_classes (req_classes payload);
              include_patents = req_include_patents payload
          in if term = [] then Inl ''Missing trademark''
             else if country_sel = [] then Inl ''Missing country''
             else if length (strip term) < 3 then Inl ''Please enter at least 3 characters.''
             else
               let term_norm = norm_text term
               in if \<not> country_available con country_sel
                  then Inl ''No records found for this country in the current index.''
                  else
                    let rows = query_candidates pl con term_norm country_sel 25;
                        patent_rows = (if include_patents then query_patents pl con term_norm 25 else []);
                        matches = map (\<lambda>r. summarize_mark today r term_norm) rows;
                        matches = sort_desc (\<lambda>m. (ms_active m, ms_similarity m)) matches;
                        matches = take 50 matches;
                        risk = score_risk matches class_filter;
                        pats = map (\<lambda>r. summarize_patent today r term_norm) patent_rows;
                        pats = sort_desc (\<lambda>p. (ps_active p, ps_similarity p)) pats;
                        pats = take 50 pats
                    in Inr \<lparr>resp_trademark = term,
                            resp_country = country_sel,
                            resp_classes = class_filter,
                            resp_risk_level = risk,
                            resp_match_count = length matches,
                            resp_patent_count = length pats,
                            resp_similar_marks = matches,
                            resp_patents = pats\<rparr>)"

section \<open>The index builder (scripts/build_index.py)\<close>

subsection \<open>Python's \<open>float(s)\<close> and \<open>int(s)\<close> on strings\<close>

definition negate :: "pyfloat \<Rightarrow> pyfloat" where
  "negate x = (case x of Finite q \<Rightarrow> Finite (- q) | PosInf \<Rightarrow> NegInf | NegInf \<Rightarrow> PosInf | NaN \<Rightarrow> NaN)"

text \<open>An optional sign: whether it is a minus, and the rest.\<close>

definition take_sign :: "string \<Rightarrow> bool \<times> string" where
  "take_sign s =
     (case s of
        c # r \<Rightarrow> if c = CHR ''-'' then (True, r) else if c = CHR ''+'' then (False, r) else (False, s)
      | [] \<Rightarrow> (False, s))"

text \<open>Underscores in a numeric literal: each one stands between two digits; they are
  removed before the literal is read. \<open>prev\<close> is the character before.\<close>

fun underscores_ok :: "char \<Rightarrow> string \<Rightarrow> bool" where
  "underscores_ok prev [] = (prev \<noteq> CHR ''_'')"
| "underscores_ok prev (c # cs) =
     ((if c = CHR ''_'' then is_digit prev else (prev = CHR ''_'' \<longrightarrow> is_digit c))
      \<and> underscores_ok c cs)"

definition strip_underscores :: "string \<Rightarrow> string option" where
  "strip_underscores s =
     (if CHR ''_'' \<notin> set s then Some s
      else if underscores_ok (CHR 0x00) s then Some (filter (\<lambda>c. c \<noteq> CHR ''_'') s)
      else None)"

text \<open>A decimal literal \<open>[sign] digits [. digits] [e [sign] digits]\<close> with a digit before
  or after the point: the sign, the digits \<open>m\<close> and the exponent \<open>e\<close> of the value
  \<open>m * 10 ^ e\<close>. An exponent mark without digits is not part of the literal, and a
  literal followed by anything is none.\<close>

definition parse_decimal :: "string \<Rightarrow> (bool \<times> nat \<times> int) option" where
  "parse_decimal s =
     (let (neg, s1) = take_sign s;
          ip = takeWhile is_digit s1;
          r1 = dropWhile is_digit s1;
          fp = (case r1 of c # r \<Rightarrow> if c = CHR ''.'' then takeWhile is_digit r else [] | [] \<Rightarrow> []);
          r2 = (case r1 of c # r \<Rightarrow> if c = CHR ''.'' then dropWhile is_digit r else r1 | [] \<Rightarrow> [])
      in if ip = [] \<and> fp = [] then None
         else
           let (ex, rest) =
                 (case r2 of
                    c # r3 \<Rightarrow>
                      if c = CHR ''e'' \<or> c = CHR ''E''
                      then (let (eneg, r4) = take_sign r3;
                                ed = takeWhile is_digit r4
                            in if ed = [] then (0, r2)
                               else ((if eneg then - int (digits_val ed) else int (digits_val ed)),
                                     dropWhile is_digit r4))
                      else (0, r2)
                  | [] \<Rightarrow> (0, []))
           in if rest \<noteq> [] then None
              else Some (neg, digits_val (ip @ fp), ex - int (length fp)))"

definition parse_inf_nan :: "string \<Rightarrow> pyfloat option" where
  "parse_inf_nan s =
     (let (neg, r) = take_sign s; w = lower r
      in if w = ''inf'' \<or> w = ''infinity'' then Some (if neg then NegInf else PosInf)
         else if w = ''nan'' then Some NaN
         else None)"

text \<open>\<open>float(s)\<close>; \<open>None\<close> is \<open>ValueError\<close>.\<close>

definition py_float :: "string \<Rightarrow> pyfloat option" where
  "py_float s0 =
     (case strip_underscores s0 of
        None \<Rightarrow> None
      | Some s1 \<Rightarrow>
          let s = strip s1
          in (case parse_decimal s of
                Some (neg, m, e) \<Rightarrow>
                  let v = (if e \<ge> 0 then round_binary64 (m * 10 ^ nat e) 1
                           else round_binary64 m (10 ^ nat (- e)))
                  in Some (if neg then negate v else v)
              | None \<Rightarrow> parse_inf_nan s))"

text \<open>\<open>int(s)\<close> in base 10: an optional sign and digits; \<open>None\<close> is \<open>ValueError\<close>.\<close>

definition py_int :: "string \<Rightarrow> int option" where
  "py_int s0 =
     (let (neg, r) = take_sign (strip s0)
      in case r of
           [] \<Rightarrow> None
         | c # cs \<Rightarrow>
             if is_digit c \<and> underscores_ok c cs \<and> (\<forall>x \<in> set cs. is_digit x \<or> x = CHR ''_'')
             then let n = int (digits_val (filter is_digit r)) in Some (if neg then - n else n)
             else None)"

text \<open>\<open>str(n)\<close> for an integer.\<close>

definition show_int :: "int \<Rightarrow> string" where
  "show_int n = (if n < 0 then CHR ''-'' # decimal (nat (- n)) else decimal (nat n))"

subsection \<open>Field conversions\<close>

definition NULL_VALUES :: "string list" where
  "NULL_VALUES = [[], ''NULL'', ''null'', ''N/A'', ''n/a'']"

definition parse_date :: "string \<Rightarrow> string" where
  "parse_date s0 =
     (let s = strip s0
      in if s = [] then []
         else case strptime s of Some _ \<Rightarrow> s | None \<Rightarrow> s)"

text \<open>\<open>excel_date_to_iso\<close>. The handler catches \<open>ValueError\<close> only: of \<open>float\<close>, and of
  \<open>int\<close> on a NaN. \<open>OverflowError\<close>, of \<open>int\<close> on an infinity and of the date
  arithmetic, leaves the function.\<close>

definition excel_date_to_iso :: "string \<Rightarrow> py_error + string" where
  "excel_date_to_iso s0 =
     (let s = strip s0
      in if s = [] \<or> s \<in> set NULL_VALUES then Inr []
         else case py_float s of
                None \<Rightarrow> Inr s
              | Some NaN \<Rightarrow> Inr s
              | Some NegInf \<Rightarrow> Inr []
              | Some PosInf \<Rightarrow> Inl OverflowError
              | Some (Finite v) \<Rightarrow>
                  if v \<le> 0 then Inr []
                  else (case date_add_days \<lparr>year = 1899, month = 12, day = 30\<rparr> (nat \<lfloor>v\<rfloor>) of
                          Inl e \<Rightarrow> Inl e
                        | Inr d \<Rightarrow> Inr (isoformat d)))"

definition infer_owner_type :: "string \<Rightarrow> string" where
  "infer_owner_type name =
     (if name = [] then ''unknown''
      else let n = lower name
           in if list_ex (contains n)
                   ['' ltd'', '' limited'', '' llc'', '' inc'', '' corp'', '' gmbh'', '' plc'', '' llp'']
              then ''company''
              else if contains n '' and '' \<or> contains n '' & '' then ''company''
              else ''individual_or_other'')"

definition clean_cell :: "string \<Rightarrow> string" where
  "clean_cell v0 = (let v = strip v0 in if v \<in> set NULL_VALUES then [] else v)"

text \<open>The shape of a normalised text: only characters of \<open>[a-z0-9]\<close> and spaces, and no
  two neighbours that are both spaces.\<close>

fun isolated :: "string \<Rightarrow> bool" where
  "isolated [] = True"
| "isolated [c] = True"
| "isolated (c # d # s) = ((is_lower_alnum c \<or> is_lower_alnum d) \<and> isolated (d # s))"

definition tidy :: "string \<Rightarrow> bool" where
  "tidy s = ((\<forall>c \<in> set s. is_lower_alnum c \<or> c = CHR '' '') \<and> isolated s)"

subsection \<open>Rows as dictionaries\<close>

text \<open>A Python \<open>dict\<close> with string keys, in insertion order: setting a key that is there
  keeps its place and replaces its value.\<close>

type_synonym pydict = "(string \<times> string) list"

fun dict_set :: "string \<Rightarrow> string \<Rightarrow> pydict \<Rightarrow> pydict" where
  "dict_set k v [] = [(k, v)]"
| "dict_set k v ((k', v') # d) = (if k' = k then (k, v) # d else (k', v') # dict_set k v d)"

text \<open>\<open>dict(zip(keys, values))\<close>, and \<open>d.get(k) or ""\<close>.\<close>

definition dict_zip :: "string list \<Rightarrow> string list \<Rightarrow> pydict" where
  "dict_zip ks vs = foldl (\<lambda>d (k, v). dict_set k v d) [] (zip ks vs)"

definition dict_get :: "pydict \<Rightarrow> string \<Rightarrow> string" where
  "dict_get d k = (case map_of d k of Some v \<Rightarrow> v | None \<Rightarrow> [])"

text \<open>\<open>sep.join(xs)\<close>.\<close>

fun join :: "string \<Rightarrow> string list \<Rightarrow> string" where
  "join sep [] = []"
| "join sep [x] = x"
| "join sep (x # y # xs) = x @ sep @ join sep (y # xs)"

definition CLASS_PREFIX :: string where
  "CLASS_PREFIX = ''Class''"

fun class_numbers :: "pydict \<Rightarrow> string list" where
  "class_numbers [] = []"
| "class_numbers ((k, v) # d) =
     (if prefix CLASS_PREFIX k
      then (case py_int (drop (length CLASS_PREFIX) k) of
              None \<Rightarrow> class_numbers d
            | Some class_num \<Rightarrow>
                if strip v \<notin> set [[], ''0'', ''No'', ''N'', ''False'']
                then show_int class_num # class_numbers d
                else class_numbers d)
      else class_numbers d)"

definition build_class_codes :: "pydict \<Rightarrow> string" where
  "build_class_codes row = join '','' (class_numbers row)"

subsection \<open>Writing the index\<close>

text \<open>A new row gets the integer key one above the greatest key of the table, 1 in an
  empty table.\<close>

definition next_rowid :: "'r table \<Rightarrow> nat" where
  "next_rowid t = foldr (\<lambda>(i, r) n. max i n) t 0 + 1"

text \<open>\<open>INSERT OR IGNORE INTO marks\<close>: the column \<open>reg_no\<close> is \<open>UNIQUE\<close>, so a record whose
  \<open>reg_no\<close> is in the table already is dropped.\<close>

definition insert_or_ignore :: "mark table \<Rightarrow> mark \<Rightarrow> mark table" where
  "insert_or_ignore t r =
     (if list_ex (\<lambda>(i, m). reg_no m = reg_no r) t then t else t @ [(next_rowid t, r)])"

definition insert_batch :: "db \<Rightarrow> mark list \<Rightarrow> db" where
  "insert_batch con batch = con\<lparr>marks := foldl insert_or_ignore (marks con) batch\<rparr>"

text \<open>\<open>executemany("INSERT INTO patents ...")\<close>: the table has no uniqueness constraint.\<close>

definition insert_patents :: "db \<Rightarrow> patent list \<Rightarrow> db" where
  "insert_patents con batch =
     con\<lparr>patents := foldl (\<lambda>t r. t @ [(next_rowid t, r)]) (patents con) batch\<rparr>"

subsection \<open>Delimited-text files\<close>

text \<open>
  What a generator does: the items it yields, and the exception that ends the iteration,
  if one does.
\<close>

type_synonym 'a gen = "'a list \<times> py_error option"

text \<open>
  A text file is given by what reading it under each encoding does: it fails before a
  header row is read (the file cannot be opened or decoded, or is empty), with the text
  of the exception; or it gives the cells of the header row and the data rows that
  decode, and then ends or fails. Cells are given without the character U+FEFF, which
  the source removes from header cells and which is no character of the model.
\<close>

datatype encoding = UTF16 | UTF16LE | UTF16BE | UTF8SIG

datatype attempt = Undecodable string | Decoded "string list" "string list list" "string option"

record txt_file =
  txt_path :: string
  txt_decode :: "encoding \<Rightarrow> attempt"

fun read_rows_from :: "string \<Rightarrow> attempt list \<Rightarrow> string option \<Rightarrow> string list list
    \<Rightarrow> string list gen" where
  "read_rows_from path [] last_err out =
     (out, Some (ValueError (''Unsupported or invalid trademark text file: '' @ path @ '' (''
                   @ (case last_err of None \<Rightarrow> ''None'' | Some e \<Rightarrow> e) @ '')'')))"
| "read_rows_from path (Undecodable e # rest) last_err out =
     read_rows_from path rest (Some e) out"
| "read_rows_from path (Decoded hs rows tail # rest) last_err out =
     (let headers = map strip hs
      in if ''Trade Mark'' \<notin> set headers \<or> ''Mark Text'' \<notin> set headers
         then read_rows_from path rest (Some ''missing expected trademark headers'') out
         else let out' = out @ [headers] @ filter (\<lambda>row. row \<noteq> []) rows
              in case tail of
                   None \<Rightarrow> (out', None)
                 | Some e \<Rightarrow> read_rows_from path rest (Some e) out')"

definition read_rows :: "txt_file \<Rightarrow> string list gen" where
  "read_rows f =
     read_rows_from (txt_path f) (map (txt_decode f) [UTF16, UTF16LE, UTF16BE, UTF8SIG]) None []"

definition pad_trim :: "string list \<Rightarrow> string list \<Rightarrow> string list" where
  "pad_trim headers row =
     (if length row < length headers then row @ replicate (length headers - length row) []
      else if length row > length headers then take (length headers) row
      else row)"

definition mark_of_row :: "string \<Rightarrow> string list \<Rightarrow> string list \<Rightarrow> mark" where
  "mark_of_row path headers row0 =
     (let row = pad_trim headers row0;
          data = dict_zip headers row;
          mark_text = strip (dict_get data ''Mark Text'');
          owner_name = strip (dict_get data ''Name'')
      in \<lparr>reg_no = strip (dict_get data ''Trade Mark''),
          mark_text = mark_text,
          mark_text_norm = norm_text mark_text,
          owner_name = owner_name,
          owner_type = infer_owner_type owner_name,
          country = strip (dict_get data ''Country''),
          status = strip (dict_get data ''Status''),
          category = strip (dict_get data ''Category of Mark''),
          mark_type = strip (dict_get data ''Mark Type''),
          filed = parse_date (dict_get data ''Filed''),
          published = parse_date (dict_get data ''Published''),
          registered = parse_date (dict_get data ''Registered''),
          expired = parse_date (dict_get data ''Expired''),
          renewal_due = parse_date (dict_get data ''Renewal Due Date''),
          class_codes = build_class_codes data,
          goods_services = [],
          source_file = path\<rparr>)"

text \<open>The loop of \<open>ingest_file\<close> over the rows the reader yields; the state is the header
  row, the pending batch, the count \<open>total\<close>, and the connection.\<close>

fun ingest_file_rows :: "string \<Rightarrow> string list list
    \<Rightarrow> string list option \<times> mark list \<times> nat \<times> db \<Rightarrow> string list option \<times> mark list \<times> nat \<times> db" where
  "ingest_file_rows path [] st = st"
| "ingest_file_rows path (row # rows) (headers, batch, ntotal, con) =
     (case headers of
        None \<Rightarrow> ingest_file_rows path rows (Some row, batch, ntotal, con)
      | Some hs \<Rightarrow>
          let batch' = batch @ [mark_of_row path hs row]
          in if length batch' \<ge> 5000
             then ingest_file_rows path rows (headers, [], ntotal + length batch', insert_batch con batch')
             else ingest_file_rows path rows (headers, batch', ntotal, con))"

text \<open>\<open>ingest_file\<close>: an exception of the reader leaves the function after the rows
  yielded before it were handled; the pending batch is not written.\<close>

definition ingest_file :: "db \<Rightarrow> txt_file \<Rightarrow> py_error + db" where
  "ingest_file con f =
     (case read_rows f of (rows, err) \<Rightarrow>
        case ingest_file_rows (txt_path f) rows (None, [], 0, con) of
          (headers, batch, ntotal, con') \<Rightarrow>
            case err of
              Some e \<Rightarrow> Inl e
            | None \<Rightarrow> Inr (if batch \<noteq> [] then insert_batch con' batch else con'))"

subsection \<open>Spreadsheets\<close>

text \<open>A spreadsheet is given by the rows \<open>read_xlsx_rows\<close> yields, the header row first,
  and the exception that ends the parse, if one does.\<close>

record xlsx_file =
  xlsx_path :: string
  xlsx_rows :: "string list gen"

definition bind :: "'e + 'a \<Rightarrow> ('a \<Rightarrow> 'e + 'b) \<Rightarrow> 'e + 'b" where
  "bind x f = (case x of Inl e \<Rightarrow> Inl e | Inr v \<Rightarrow> f v)"

definition patent_of_row :: "string \<Rightarrow> string list \<Rightarrow> string list \<Rightarrow> py_error + patent" where
  "patent_of_row path headers row0 =
     (let row = (if length row0 < length headers
                 then row0 @ replicate (length headers - length row0) [] else row0);
          data = dict_zip headers row;
          get = (\<lambda>key. clean_cell (dict_get data key))
      in bind (excel_date_to_iso (get ''Earliest filing date'')) (\<lambda>earliest.
         bind (excel_date_to_iso (get ''Filing date'')) (\<lambda>filing.
         bind (excel_date_to_iso (get ''Lodged date'')) (\<lambda>lodged.
         bind (excel_date_to_iso (get ''A publication date'')) (\<lambda>pub_a.
         bind (excel_date_to_iso (get ''B publication date'')) (\<lambda>pub_b.
         bind (excel_date_to_iso (get ''PCT filing date'')) (\<lambda>pct_filing.
         bind (excel_date_to_iso (get ''PCT publication date'')) (\<lambda>pct_pub.
         bind (excel_date_to_iso (get ''Last renewal date'')) (\<lambda>renewal.
         bind (excel_date_to_iso (get ''Date not in force'')) (\<lambda>not_in_force.
         Inr \<lparr>application_number = get ''Application number'',
              publication_number = get ''Publication number'',
              ipsum = get ''IPSUM'',
              earliest_filing_date = earliest,
              filing_date = filing,
              lodged_date = lodged,
              publication_a_date = pub_a,
              publication_b_date = pub_b,
              applicant_name = get ''Applicant name'',
              applicant_country_code = get ''Applicant Country code'',
              applicant_postcode = get ''Applicant postcode'',
              applicant_county = get ''Applicant county'',
              applicant_region = get ''Applicant region'',
              applicant_country = get ''Applicant country'',
              ipc7 = get ''IPC7'',
              ipc8 = get ''IPC8'',
              pct_filing_date = pct_filing,
              pct_publication_date = pct_pub,
              last_renewal_date = renewal,
              last_annuity_year = get ''Last annuity year'',
              date_not_in_force = not_in_force,
              reason_not_in_force = get ''Reason not in force'',
              patent_status = get ''Status'',
              patent_source_file = path\<rparr>))))))))))"

fun ingest_patent_rows :: "string \<Rightarrow> string list list
    \<Rightarrow> string list option \<times> patent list \<times> nat \<times> db
    \<Rightarrow> py_error + (string list option \<times> patent list \<times> nat \<times> db)" where
  "ingest_patent_rows path [] st = Inr st"
| "ingest_patent_rows path (row # rows) (headers, batch, ntotal, con) =
     (case headers of
        None \<Rightarrow> ingest_patent_rows path rows (Some row, batch, ntotal, con)
      | Some hs \<Rightarrow>
          if row = [] then ingest_patent_rows path rows (headers, batch, ntotal, con)
          else (case patent_of_row path hs row of
                  Inl e \<Rightarrow> Inl e
                | Inr p \<Rightarrow>
                    let batch' = batch @ [p]
                    in if length batch' \<ge> 5000
                       then ingest_patent_rows path rows
                              (headers, [], ntotal + length batch', insert_patents con batch')
                       else ingest_patent_rows path rows (headers, batch', ntotal, con)))"

definition ingest_patents :: "db \<Rightarrow> xlsx_file \<Rightarrow> py_error + db" where
  "ingest_patents con f =
     (case ingest_patent_rows (xlsx_path f) (fst (xlsx_rows f)) (None, [], 0, con) of
        Inl e \<Rightarrow> Inl e
      | Inr (headers, batch, ntotal, con') \<Rightarrow>
          (case snd (xlsx_rows f) of
             Some e \<Rightarrow> Inl e
           | None \<Rightarrow> Inr (if batch \<noteq> [] then insert_patents con' batch else con')))"

subsection \<open>The XML journal\<close>

text \<open>\<open>str.upper\<close> leaves Latin-1 at two characters, so an upper-cased string is a list of
  code points.\<close>

definition upper_char :: "char \<Rightarrow> nat list" where
  "upper_char c = (let n = code c in
     if (97 \<le> n \<and> n \<le> 122) \<or> (224 \<le> n \<and> n \<le> 254 \<and> n \<noteq> 247) then [n - 32]
     else if n = 223 then [83, 83]
     else if n = 181 then [924]
     else if n = 255 then [376]
     else [n])"

definition upper :: "string \<Rightarrow> nat list" where
  "upper s = concat (map upper_char s)"

definition codes :: "string \<Rightarrow> nat list" where
  "codes s = map code s"

definition normalize_country_from_office :: "string \<Rightarrow> string \<Rightarrow> string" where
  "normalize_country_from_office reg_no0 office_code0 =
     (let reg_no = upper reg_no0; office_code = upper office_code0
      in if prefix (codes ''UK'') reg_no \<or> office_code \<in> set [codes ''GB'', codes ''UK'']
         then ''United Kingdom''
         else if prefix (codes ''US'') reg_no \<or> office_code = codes ''US'' then ''United States''
         else if office_code \<in> set [codes ''EM'', codes ''EU'', codes ''EP'']
                 \<or> prefix (codes ''EU'') reg_no
         then ''European Union''
         else if prefix (codes ''WO'') reg_no \<or> office_code \<noteq> [] then ''Rest of World''
         else ''Rest of World'')"

text \<open>A \<open>TradeMark\<close> element is given by the texts the loop reads from it: the text of a
  child, empty when the child or its text is missing; and for every
  \<open>GoodsServicesDetails\<close> child the texts of its class number and its description.\<close>

record trademark_elem =
  te_registration_number :: string
  te_application_date :: string
  te_office_code :: string
  te_mark_feature :: string
  te_kind_mark :: string
  te_mark_verbal :: string
  te_applicant_name :: string
  te_goods :: "(string \<times> string) list"

definition mark_of_elem :: "string \<Rightarrow> trademark_elem \<Rightarrow> mark" where
  "mark_of_elem path e =
     (let reg_no = strip (te_registration_number e);
          app_date = strip (te_application_date e);
          office_code = strip (te_office_code e);
          mark_type = strip (te_mark_feature e);
          kind_mark = strip (te_kind_mark e);
          mark_text = strip (te_mark_verbal e);
          applicant = strip (te_applicant_name e);
          class_nums = map (strip \<circ> fst) (filter (\<lambda>(cn, d). cn \<noteq> []) (te_goods e));
          goods = map (strip \<circ> snd) (filter (\<lambda>(cn, d). d \<noteq> []) (te_goods e))
      in \<lparr>reg_no = reg_no,
          mark_text = mark_text,
          mark_text_norm = norm_text mark_text,
          owner_name = applicant,
          owner_type = infer_owner_type applicant,
          country = normalize_country_from_office reg_no office_code,
          status = ''Published'',
          category = [],
          mark_type = (if mark_type \<noteq> [] then mark_type else kind_mark),
          filed = parse_date app_date,
          published = parse_date app_date,
          registered = [],
          expired = [],
          renewal_due = [],
          class_codes = join '','' (filter (\<lambda>c. c \<noteq> []) class_nums),
          goods_services = take 4000 (join '' | '' goods),
          source_file = path\<rparr>)"

record xml_file =
  xml_path :: string
  xml_elems :: "trademark_elem gen"

fun ingest_journal_elems :: "string \<Rightarrow> trademark_elem list \<Rightarrow> mark list \<times> nat \<times> db
    \<Rightarrow> mark list \<times> nat \<times> db" where
  "ingest_journal_elems path [] st = st"
| "ingest_journal_elems path (e # es) (batch, ntotal, con) =
     (let batch' = batch @ [mark_of_elem path e]
      in if length batch' \<ge> 5000
         then ingest_journal_elems path es ([], ntotal + length batch', insert_batch con batch')
         else ingest_journal_elems path es (batch', ntotal, con))"

definition ingest_journal_xml :: "db \<Rightarrow> xml_file \<Rightarrow> py_error + db" where
  "ingest_journal_xml con f =
     (case ingest_journal_elems (xml_path f) (fst (xml_elems f)) ([], 0, con) of
        (batch, ntotal, con') \<Rightarrow>
          (case snd (xml_elems f) of
             Some e \<Rightarrow> Inl e
           | None \<Rightarrow> Inr (if batch \<noteq> [] then insert_batch con' batch else con')))"

subsection \<open>The run\<close>

text \<open>
  \<open>main\<close> on the files the three discovery functions found. With no file at all it
  returns and leaves the index alone. Otherwise it deletes the index, creates the empty
  tables and ingests the files one after the other; it commits once, at the end. It
  has no exception handler, so an exception of any ingestion step ends the run before
  the commit.
\<close>

datatype outcome = NoData | Built db | Aborted py_error

fun ingest_each :: "(db \<Rightarrow> 'f \<Rightarrow> py_error + db) \<Rightarrow> db \<Rightarrow> 'f list \<Rightarrow> py_error + db" where
  "ingest_each step con [] = Inr con"
| "ingest_each step con (f # fs) =
     (case step con f of Inl e \<Rightarrow> Inl e | Inr con' \<Rightarrow> ingest_each step con' fs)"

definition empty_db :: db where
  "empty_db = \<lparr>marks = [], patents = []\<rparr>"

definition main :: "txt_file list \<Rightarrow> xlsx_file list \<Rightarrow> xml_file list \<Rightarrow> outcome" where
  "main files xlsx_files xml_files =
     (if files = [] \<and> xlsx_files = [] \<and> xml_files = [] then NoData
      else case ingest_each ingest_file empty_db files of
             Inl e \<Rightarrow> Aborted e
           | Inr con1 \<Rightarrow>
               (case ingest_each ingest_patents con1 xlsx_files of
                  Inl e \<Rightarrow> Aborted e
                | Inr con2 \<Rightarrow>
                    (case ingest_each ingest_journal_xml con2 xml_files of
                       Inl e \<Rightarrow> Aborted e
                     | Inr con3 \<Rightarrow> Built con3)))"

subsection \<open>The risk tiers in the words of the specification\<close>

text \<open>A record passes the class filter when the filter is empty or shares a class code
  with the record; it is strong when it passes, is active and has similarity at least
  0.92, and medium when it passes, is active and has similarity in [0.85, 0.92).\<close>

definition passes_class_filter :: "string list \<Rightarrow> mark_summary \<Rightarrow> bool" where
  "passes_class_filter class_filter m =
     (class_filter = [] \<or> set class_filter \<inter> set (ms_class_codes m) \<noteq> {})"

definition spec_strong :: "string list \<Rightarrow> mark_summary \<Rightarrow> bool" where
  "spec_strong class_filter m =
     (passes_class_filter class_filter m \<and> ms_active m \<and> ms_similarity m \<ge> 92 / 100)"

definition spec_medium :: "string list \<Rightarrow> mark_summary \<Rightarrow> bool" where
  "spec_medium class_filter m =
     (passes_class_filter class_filter m \<and> ms_active m
      \<and> 85 / 100 \<le> ms_similarity m \<and> ms_similarity m < 92 / 100)"

text \<open>A summary with a given activity, similarity and class codes, its other fields empty.\<close>

definition summary_with :: "bool \<Rightarrow> rat \<Rightarrow> string list \<Rightarrow> mark_summary" where
  "summary_with a sim cs =
     \<lparr>ms_reg_no = [], ms_mark_text = [], ms_owner_name = [], ms_owner_type = [],
      ms_country = [], ms_status = [], ms_category = [], ms_mark_type = [], ms_filed = [],
      ms_registered = [], ms_expired = [], ms_renewal_due = [], ms_age_years = None,
      ms_active = a, ms_class_codes = cs, ms_goods_services = [], ms_similarity = sim\<rparr>"

subsection \<open>The company markers of \<open>infer_owner_type\<close>\<close>

definition company_markers :: "string list" where
  "company_markers =
     ['' ltd'', '' limited'', '' llc'', '' inc'', '' corp'', '' gmbh'', '' plc'', '' llp'',
      '' and '', '' & '']"

subsection \<open>Strict ISO dates\<close>

text \<open>The strict form \<open>YYYY-MM-DD\<close> of the specification: four digits, a hyphen, two
  digits, a hyphen, two digits.\<close>

definition strict_iso :: "string \<Rightarrow> bool" where
  "strict_iso s =
     (case s of
        [y1, y2, y3, y4, h1, m1, m2, h2, d1, d2] \<Rightarrow>
          is_digit y1 \<and> is_digit y2 \<and> is_digit y3 \<and> is_digit y4 \<and> h1 = CHR ''-''
          \<and> is_digit m1 \<and> is_digit m2 \<and> h2 = CHR ''-'' \<and> is_digit d1 \<and> is_digit d2
      | _ \<Rightarrow> False)"

subsection \<open>The retrieval tiers in the words of the specification\<close>







text \<open>A mark with a given registration number, text and country, as the ingestion stores
  it, its other columns empty.\<close>

definition mark_with :: "string \<Rightarrow> string \<Rightarrow> string \<Rightarrow> mark" where
  "mark_with r t c =
     \<lparr>reg_no = r, mark_text = t, mark_text_norm = norm_text t, owner_name = [],
      owner_type = ''unknown'', country = c, status = ''Registered'', category = [],
      mark_type = [], filed = [], published = [], registered = [], expired = [],
      renewal_due = [], class_codes = [], goods_services = [], source_file = []\<rparr>"

subsection \<open>Text files that no encoding reads\<close>







subsection \<open>An index of two spreadsheet rows\<close>

text \<open>A spreadsheet with a header row and two rows of the applicant "Acme Robotics Ltd",
  with no date not in force; the row of the patents table that such a spreadsheet row
  becomes; a plan that reads every table by id; and the request for "acme robotic" in
  the country "US", patents included.\<close>

definition acme_xlsx :: xlsx_file where
  "acme_xlsx =
     \<lparr>xlsx_path = ''patents.xlsx'',
      xlsx_rows = ([[''Application number'', ''Applicant name'', ''Date not in force'', ''Status''],
                    [''GB1'', ''Acme Robotics Ltd'', [], ''Granted''],
                    [''GB2'', ''Acme Robotics Ltd'', [], ''Granted'']], None)\<rparr>"

definition patent_with :: "string \<Rightarrow> string \<Rightarrow> string \<Rightarrow> string \<Rightarrow> patent" where
  "patent_with number applicant st path =
     \<lparr>application_number = number, publication_number = [], ipsum = [],
      earliest_filing_date = [], filing_date = [], lodged_date = [], publication_a_date = [],
      publication_b_date = [], applicant_name = applicant, applicant_country_code = [],
      applicant_postcode = [], applicant_county = [], applicant_region = [],
      applicant_country = [], ipc7 = [], ipc8 = [], pct_filing_date = [],
      pct_publication_date = [], last_renewal_date = [], last_annuity_year = [],
      date_not_in_force = [], reason_not_in_force = [], patent_status = st,
      patent_source_file = path\<rparr>"

definition by_id :: plan where
  "by_id = \<lparr>exact_scan = (\<lambda>t. t), prefix_scan = (\<lambda>t. t), patent_scan = (\<lambda>t. t)\<rparr>"

definition acme_request :: request where
  "acme_request =
     \<lparr>req_trademark = ''acme robotic'', req_country = ''US'', req_classes = [],
      req_include_patents = True\<rparr>"

section \<open>Verified properties\<close>

text \<open>The facts that evaluate the character tests on a literal.\<close>

lemmas char_eval = code_def char_of_def bit_Suc_0_iff is_space_def is_digit_def digit_val_def digits_val_def

subsection \<open>The calendar\<close>

text \<open>\<open>fromordinal\<close> inverts \<open>toordinal\<close> and gives dates of the calendar, and the order of
  dates is the order of their ordinals: the date \<open>n\<close> days after a date is the date
  whose ordinal is greater by \<open>n\<close>.\<close>

lemma month_day:
  assumes "r < 365" and "m = (r + 50) div 32"
    and "p = [0, 0, 31, 59, 90, 120, 151, 181, 212, 243, 273, 304, 334] ! m
              + (if m > 2 \<and> L then 1 else 0)"
    and "L = is_leap y"
  shows "if p > r
         then 2 \<le> m \<and> m - 1 \<le> 12
              \<and> p - ([0, 31, 28, 31, 30, 31, 30, 31, 31, 30, 31, 30, 31] ! (m - 1)
                      + (if m - 1 = 2 \<and> L then 1 else 0)) = days_before_month y (m - 1)
              \<and> days_before_month y (m - 1) \<le> r
              \<and> r - days_before_month y (m - 1) + 1 \<le> days_in_month y (m - 1)
         else 1 \<le> m \<and> m \<le> 12 \<and> p = days_before_month y m
              \<and> r - p + 1 \<le> days_in_month y m"
proof -
  have "1 \<le> m \<and> m \<le> 12"
    using assms(1,2) by arith
  then have "m = 1 \<or> m = 2 \<or> m = 3 \<or> m = 4 \<or> m = 5 \<or> m = 6
      \<or> m = 7 \<or> m = 8 \<or> m = 9 \<or> m = 10 \<or> m = 11 \<or> m = 12" by arith
  then consider "m = 1" | "m = 2" | "m = 3" | "m = 4" | "m = 5" | "m = 6"
    | "m = 7" | "m = 8" | "m = 9" | "m = 10" | "m = 11" | "m = 12" by blast
  then show ?thesis
  proof cases
    case 1 then show ?thesis using assms by (auto simp: days_before_month_def days_in_month_def)
  next
    case 2 then show ?thesis using assms by (auto simp: days_before_month_def days_in_month_def)
  next
    case 3 then show ?thesis using assms by (auto simp: days_before_month_def days_in_month_def)
  next
    case 4 then show ?thesis using assms by (auto simp: days_before_month_def days_in_month_def)
  next
    case 5 then show ?thesis using assms by (auto simp: days_before_month_def days_in_month_def)
  next
    case 6 then show ?thesis using assms by (auto simp: days_before_month_def days_in_month_def)
  next
    case 7 then show ?thesis using assms by (auto simp: days_before_month_def days_in_month_def)
  next
    case 8 then show ?thesis using assms by (auto simp: days_before_month_def days_in_month_def)
  next
    case 9 then show ?thesis using assms by (auto simp: days_before_month_def days_in_month_def)
  next
    case 10 then show ?thesis using assms by (auto simp: days_before_month_def days_in_month_def)
  next
    case 11 then show ?thesis using assms by (auto simp: days_before_month_def days_in_month_def)
  next
    case 12 then show ?thesis using assms by (auto simp: days_before_month_def days_in_month_def)
  qed
qed


lemma div_lin: "r < k \<Longrightarrow> (k * q + r) div k = (q::nat)"
  by simp

lemma mod_lin: "r < k \<Longrightarrow> (k * q + r) mod k = (r::nat)"
  by simp

lemma dby_normal:
  assumes "b \<le> 3" "c \<le> 24" "d \<le> 3"
  shows "days_before_year (400 * a + 100 * b + 4 * c + d + 1)
         = 146097 * a + 36524 * b + 1461 * c + 365 * d"
proof -
  let ?y = "400 * a + 100 * b + 4 * c + d"
  have "?y = 4 * (100 * a + 25 * b + c) + d" by simp
  then have 1: "?y div 4 = 100 * a + 25 * b + c" using div_lin[of d 4] assms by simp
  have "?y = 100 * (4 * a + b) + (4 * c + d)" by simp
  then have 2: "?y div 100 = 4 * a + b" using div_lin[of "4 * c + d" 100 "4 * a + b"] assms by simp
  have "?y = 400 * a + (100 * b + 4 * c + d)" by simp
  then have 3: "?y div 400 = a" using div_lin[of "100 * b + 4 * c + d" 400 a] assms by simp
  show ?thesis unfolding days_before_year_def Let_def using 1 2 3 by simp
qed


lemma mod_lin2: "(k * q + r) mod k = (r::nat) mod k"
  by simp

lemma leap_normal:
  assumes "b \<le> 3" "c \<le> 24" "d \<le> 3"
  shows "is_leap (400 * a + 100 * b + 4 * c + d + 1) = (d = 3 \<and> (c \<noteq> 24 \<or> b = 3))"
proof -
  let ?y = "400 * a + 100 * b + 4 * c + d + 1"
  have e4: "?y = 4 * (100 * a + 25 * b + c) + (d + 1)" by simp
  have m4: "?y mod 4 = (d + 1) mod 4" by (subst e4) (rule mod_lin2)
  have e100: "?y = 100 * (4 * a + b) + (4 * c + d + 1)" by simp
  have m100: "?y mod 100 = (4 * c + d + 1) mod 100" by (subst e100) (rule mod_lin2)
  have e400: "?y = 400 * a + (100 * b + 4 * c + d + 1)" by simp
  have m400: "?y mod 400 = (100 * b + 4 * c + d + 1) mod 400" by (subst e400) (rule mod_lin2)
  show ?thesis
  proof (cases "d = 3")
    case False
    then have "d + 1 < 4" using assms by simp
    then have "(d + 1) mod 4 = d + 1" by simp
    then show ?thesis using False m4 by (simp add: is_leap_def)
  next
    case d3: True
    then have y4: "?y mod 4 = 0" using m4 by simp
    show ?thesis
    proof (cases "c = 24")
      case False
      then have "4 * c + d + 1 < 100" using assms d3 by simp
      then have "(4 * c + d + 1) mod 100 = 4 * c + d + 1" by simp
      then have "?y mod 100 \<noteq> 0" using m100 by simp
      then show ?thesis using d3 False y4 unfolding is_leap_def by blast
    next
      case c24: True
      then have y100: "?y mod 100 = 0" using m100 d3 by simp
      show ?thesis
      proof (cases "b = 3")
        case True
        then have "?y mod 400 = 0" using m400 d3 c24 by simp
        then show ?thesis using d3 c24 True y4 unfolding is_leap_def by blast
      next
        case False
        then have "100 * b + 4 * c + d + 1 < 400" using assms by simp
        then have "(100 * b + 4 * c + d + 1) mod 400 = 100 * b + 4 * c + d + 1" by simp
        then have "?y mod 400 \<noteq> 0" using m400 by simp
        then show ?thesis using d3 c24 False y100 unfolding is_leap_def by blast
      qed
    qed
  qed
qed


lemma fromordinal_toordinal:
  assumes "1 \<le> n0"
  shows "toordinal (fromordinal n0) = n0
       \<and> 1 \<le> year (fromordinal n0)
       \<and> 1 \<le> month (fromordinal n0) \<and> month (fromordinal n0) \<le> 12
       \<and> 1 \<le> day (fromordinal n0)
       \<and> day (fromordinal n0) \<le> days_in_month (year (fromordinal n0)) (month (fromordinal n0))
       \<and> (n0 \<le> 3652059 \<longrightarrow> year (fromordinal n0) \<le> 9999)"
proof -
  define N where "N = n0 - 1"
  define a where "a = N div 146097"
  define r1 where "r1 = N mod 146097"
  define b where "b = r1 div 36524"
  define r2 where "r2 = r1 mod 36524"
  define c where "c = r2 div 1461"
  define r3 where "r3 = r2 mod 1461"
  define d where "d = r3 div 365"
  define r where "r = r3 mod 365"
  define L where "L = (d = 3 \<and> (c \<noteq> 24 \<or> b = 3))"
  define m where "m = (r + 50) div 32"
  define p :: nat where "p = [0, 0, 31, 59, 90, 120, 151, 181, 212, 243, 273, 304, 334] ! m
                          + (if m > 2 \<and> L then 1 else 0)"
  define q :: nat where "q = [0, 31, 28, 31, 30, 31, 30, 31, 31, 30, 31, 30, 31] ! (m - 1)
                         + (if m - 1 = 2 \<and> L then 1 else 0)"
  define Y where "Y = a * 400 + 1 + b * 100 + c * 4 + d"
  have n0: "n0 = N + 1" using assms by (simp add: N_def)
  have N: "N = 146097 * a + r1" and r1: "r1 < 146097" by (simp_all add: a_def r1_def)
  have R1: "r1 = 36524 * b + r2" and r2: "r2 < 36524" by (simp_all add: b_def r2_def)
  have R2: "r2 = 1461 * c + r3" and r3: "r3 < 1461" by (simp_all add: c_def r3_def)
  have R3: "r3 = 365 * d + r" and r: "r < 365" by (simp_all add: d_def r_def)
  have b4: "b \<le> 4" using R1 r1 by simp
  have c24: "c \<le> 24" using R2 r2 by simp
  have d4: "d \<le> 4" using R3 r3 by simp
  have fo: "fromordinal n0 =
     (if d = 4 \<or> b = 4 then \<lparr>year = Y - 1, month = 12, day = 31\<rparr>
      else if p > r then \<lparr>year = Y, month = m - 1, day = r - (p - q) + 1\<rparr>
      else \<lparr>year = Y, month = m, day = r - p + 1\<rparr>)"
    unfolding fromordinal_def Y_def q_def p_def m_def L_def
      N_def a_def r1_def b_def r2_def c_def r3_def d_def r_def Let_def
    by (simp add: add.assoc)
  have Yv: "Y = 400 * a + 100 * b + 4 * c + d + 1" by (simp add: Y_def)
  show ?thesis
  proof (cases "b = 4")
    case True
    then have "r2 = 0" using R1 r1 by simp
    then have z: "c = 0" "d = 0" "r = 0" by (simp_all add: c_def r3_def d_def r_def)
    have F: "fromordinal n0 = \<lparr>year = 400 * a + 100 * 3 + 4 * 24 + 3 + 1, month = 12, day = 31\<rparr>"
      using fo True z Yv by simp
    have Nv: "N = 146097 * a + 146096" using N R1 True \<open>r2 = 0\<close> by simp
    have Lp: "is_leap (400 * a + 100 * 3 + 4 * 24 + 3 + 1)"
      using leap_normal[of 3 24 3 a] by simp
    have Yd: "days_before_year (400 * a + 100 * 3 + 4 * 24 + 3 + 1) = 146097 * a + 36524 * 3 + 1461 * 24 + 365 * 3"
      using dby_normal[of 3 24 3 a] by simp
    show ?thesis unfolding F using Lp Yd n0 Nv
      by (simp add: toordinal_def days_before_month_def days_in_month_def)
  next
    case bn4: False
    then have b3: "b \<le> 3" using b4 by simp
    show ?thesis
    proof (cases "d = 4")
      case True
      then have rz: "r = 0" using R3 r3 by simp
      have "c \<noteq> 24" using R2 r2 R3 True by auto
      then have c23: "c \<le> 23" using c24 by simp
      have F: "fromordinal n0 = \<lparr>year = 400 * a + 100 * b + 4 * c + 3 + 1, month = 12, day = 31\<rparr>"
        using fo True Yv by simp
      have Nv: "N = 146097 * a + 36524 * b + 1461 * c + 1460" using N R1 R2 R3 True rz by simp
      have Lp: "is_leap (400 * a + 100 * b + 4 * c + 3 + 1)"
        using leap_normal[of b c 3 a] b3 c23 by simp
      have Yd: "days_before_year (400 * a + 100 * b + 4 * c + 3 + 1) = 146097 * a + 36524 * b + 1461 * c + 365 * 3"
        using dby_normal[of b c 3 a] b3 c23 by simp
      show ?thesis unfolding F using Lp Yd n0 Nv
        by (simp add: toordinal_def days_before_month_def days_in_month_def)
    next
      case dn4: False
      then have d3: "d \<le> 3" using d4 by simp
      have Lp: "L = is_leap Y" unfolding Yv L_def using leap_normal[OF b3 c24 d3, of a] by simp
      have Yd: "days_before_year Y = 146097 * a + 36524 * b + 1461 * c + 365 * d"
        unfolding Yv using dby_normal[OF b3 c24 d3, of a] .
      have Nv: "N = 146097 * a + 36524 * b + 1461 * c + 365 * d + r" using N R1 R2 R3 by simp
      have Y1: "1 \<le> Y" by (simp add: Yv)
      have Y9: "n0 \<le> 3652059 \<longrightarrow> Y \<le> 9999"
      proof
        assume "n0 \<le> 3652059"
        then have le: "146097 * a + 36524 * b + 1461 * c + 365 * d + r \<le> 3652058"
          using n0 Nv by simp
        then have a24: "a \<le> 24" by simp
        show "Y \<le> 9999"
        proof (cases "a = 24")
          case False
          then have "a \<le> 23" using a24 by simp
          then show ?thesis using b3 c24 d3 Yv by simp
        next
          case True
          then have le2: "36524 * b + 1461 * c + 365 * d \<le> 145730" using le by simp
          have "\<not> (b = 3 \<and> c = 24 \<and> d = 3)" using le2 by auto
          then have "100 * b + 4 * c + d \<le> 398" using b3 c24 d3 by linarith
          then show ?thesis using True Yv by simp
        qed
      qed
      note md = month_day[OF r m_def p_def Lp]
      show ?thesis
      proof (cases "p > r")
        case True
        from md True have md': "2 \<le> m \<and> m - 1 \<le> 12 \<and> p - q = days_before_month Y (m - 1)
              \<and> days_before_month Y (m - 1) \<le> r
              \<and> r - days_before_month Y (m - 1) + 1 \<le> days_in_month Y (m - 1)"
          unfolding q_def by (simp only: if_True)
        have F: "fromordinal n0 = \<lparr>year = Y, month = m - 1,
                   day = r - days_before_month Y (m - 1) + 1\<rparr>"
          using fo bn4 dn4 True md' by simp
        have m1: "1 \<le> m - 1" using md' by linarith
        show ?thesis unfolding F using md' m1 Yd n0 Nv Y1 Y9 by (simp add: toordinal_def)
      next
        case False
        from md False have md': "1 \<le> m \<and> m \<le> 12 \<and> p = days_before_month Y m
              \<and> r - p + 1 \<le> days_in_month Y m"
          using if_not_P[OF False] by metis
        have pr: "p \<le> r" using False by simp
        have e: "days_before_month Y m = p" using md' by blast
        have dm: "r - p + 1 \<le> days_in_month Y m" and mr: "1 \<le> m" "m \<le> 12" using md' by blast+
        have F: "fromordinal n0 = \<lparr>year = Y, month = m, day = r - p + 1\<rparr>"
          using fo bn4 dn4 False by simp
        show ?thesis unfolding F using e dm mr pr Yd n0 Nv Y1 Y9 by (simp add: toordinal_def)
      qed
    qed
  qed
qed


lemma year_decomp:
  obtains a b c d :: nat where "y = 400 * a + 100 * b + 4 * c + d" "b \<le> 3" "c \<le> 24" "d \<le> 3"
proof -
  define a where "a = y div 400"
  define r where "r = y mod 400"
  define b where "b = r div 100"
  define r' where "r' = r mod 100"
  define c where "c = r' div 4"
  define d where "d = r' mod 4"
  have 1: "y = 400 * a + r" "r < 400" by (simp_all add: a_def r_def)
  have 2: "r = 100 * b + r'" "r' < 100" by (simp_all add: b_def r'_def)
  have 3: "r' = 4 * c + d" "d < 4" by (simp_all add: c_def d_def)
  have "y = 400 * a + 100 * b + 4 * c + d" using 1 2 3 by simp
  moreover have "b \<le> 3" using 1 2 by simp
  moreover have "c \<le> 24" using 2 3 by simp
  moreover have "d \<le> 3" using 3 by simp
  ultimately show ?thesis using that by blast
qed

lemma dby_Suc:
  assumes "1 \<le> y"
  shows "days_before_year (Suc y) = days_before_year y + (if is_leap y then 366 else 365)"
proof -
  obtain a b c d where y1: "y - 1 = 400 * a + 100 * b + 4 * c + d"
    and bd: "b \<le> 3" "c \<le> 24" "d \<le> 3"
    using year_decomp[of "y - 1"] by blast
  have y: "y = 400 * a + 100 * b + 4 * c + d + 1" using y1 assms by simp
  have D: "days_before_year y = 146097 * a + 36524 * b + 1461 * c + 365 * d"
    unfolding y using dby_normal[OF bd] .
  have L: "is_leap y = (d = 3 \<and> (c \<noteq> 24 \<or> b = 3))"
    unfolding y using leap_normal[OF bd] .
  show ?thesis
  proof (cases "d = 3")
    case False
    then have d2: "d + 1 \<le> 3" using bd by simp
    have "Suc y = 400 * a + 100 * b + 4 * c + (d + 1) + 1" using y by simp
    then have "days_before_year (Suc y) = 146097 * a + 36524 * b + 1461 * c + 365 * (d + 1)"
      using dby_normal[OF bd(1,2) d2, of a] by simp
    then show ?thesis using D L False by simp
  next
    case d3: True
    show ?thesis
    proof (cases "c = 24")
      case False
      then have c2: "c + 1 \<le> 24" using bd by simp
      have "Suc y = 400 * a + 100 * b + 4 * (c + 1) + 0 + 1" using y d3 by simp
      then have "days_before_year (Suc y) = 146097 * a + 36524 * b + 1461 * (c + 1) + 365 * 0"
        using dby_normal[OF bd(1) c2, of 0 a] by simp
      then show ?thesis using D L False d3 by simp
    next
      case c24: True
      show ?thesis
      proof (cases "b = 3")
        case False
        then have b2: "b + 1 \<le> 3" using bd by simp
        have "Suc y = 400 * a + 100 * (b + 1) + 4 * 0 + 0 + 1" using y d3 c24 by simp
        then have "days_before_year (Suc y) = 146097 * a + 36524 * (b + 1) + 1461 * 0 + 365 * 0"
          using dby_normal[OF b2, of 0 0 a] by simp
        then show ?thesis using D L False d3 c24 by simp
      next
        case True
        have "Suc y = 400 * (a + 1) + 100 * 0 + 4 * 0 + 0 + 1" using y d3 c24 True by simp
        then have "days_before_year (Suc y) = 146097 * (a + 1) + 36524 * 0 + 1461 * 0 + 365 * 0"
          using dby_normal[of 0 0 0 "a + 1"] by simp
        then show ?thesis using D L True d3 c24 by simp
      qed
    qed
  qed
qed


lemma dby_mono:
  assumes "1 \<le> y1" "y1 < y2"
  shows "days_before_year y1 + (if is_leap y1 then 366 else 365) \<le> days_before_year y2"
  using assms(2)
proof (induction y2)
  case 0
  then show ?case by simp
next
  case (Suc y2)
  show ?case
  proof (cases "y1 = y2")
    case True
    then show ?thesis using dby_Suc[OF assms(1)] by simp
  next
    case False
    then have "y1 < y2" using Suc.prems by simp
    then have "days_before_year y1 + (if is_leap y1 then 366 else 365) \<le> days_before_year y2"
      using Suc.IH by simp
    moreover have "1 \<le> y2" using \<open>y1 < y2\<close> by simp
    ultimately show ?thesis using dby_Suc[of y2] by simp
  qed
qed

lemma month_cases:
  assumes "1 \<le> m" "m \<le> 12"
  obtains "m = 1" | "m = 2" | "m = 3" | "m = 4" | "m = 5" | "m = 6"
    | "m = 7" | "m = 8" | "m = 9" | "m = 10" | "m = 11" | "m = (12::nat)"
proof -
  have "m = 1 \<or> m = 2 \<or> m = 3 \<or> m = 4 \<or> m = 5 \<or> m = 6
      \<or> m = 7 \<or> m = 8 \<or> m = 9 \<or> m = 10 \<or> m = 11 \<or> m = 12" using assms by arith
  then show ?thesis using that by blast
qed

lemma dbm_Suc:
  assumes "1 \<le> m" "m < 12"
  shows "days_before_month y (Suc m) = days_before_month y m + days_in_month y m"
proof -
  have "m \<le> 12" using assms by simp
  from assms(1) this show ?thesis
    using assms(2) by (cases m rule: month_cases) (simp_all add: days_before_month_def days_in_month_def)
qed

lemma dbm_mono:
  assumes "1 \<le> m1" "m1 < m2" "m2 \<le> 12"
  shows "days_before_month y m1 + days_in_month y m1 \<le> days_before_month y m2"
  using assms(2,3)
proof (induction m2)
  case 0
  then show ?case by simp
next
  case (Suc m2)
  show ?case
  proof (cases "m1 = m2")
    case True
    then show ?thesis using dbm_Suc[of m2 y] assms(1) Suc.prems by simp
  next
    case False
    then have lt: "m1 < m2" using Suc.prems by simp
    then have "days_before_month y m1 + days_in_month y m1 \<le> days_before_month y m2"
      using Suc.IH Suc.prems by simp
    moreover have "days_before_month y (Suc m2) = days_before_month y m2 + days_in_month y m2"
      using dbm_Suc[of m2 y] lt Suc.prems by simp
    ultimately show ?thesis by simp
  qed
qed

lemma day_of_year_le:
  assumes "1 \<le> m" "m \<le> 12" "d \<le> days_in_month y m"
  shows "days_before_month y m + d \<le> (if is_leap y then 366 else 365)"
  using assms by (cases m rule: month_cases) (auto simp: days_before_month_def days_in_month_def)

lemma date_less_iff:
  "date_less a b \<longleftrightarrow>
     year a < year b
     \<or> (year a = year b \<and> (month a < month b \<or> (month a = month b \<and> day a < day b)))"
  unfolding date_less_def less_prod_def by auto

lemma toordinal_mono:
  assumes "valid_date a" "valid_date b" "date_less a b"
  shows "toordinal a < toordinal b"
proof -
  have va: "1 \<le> year a" "1 \<le> month a" "month a \<le> 12" "1 \<le> day a"
      "day a \<le> days_in_month (year a) (month a)"
    using assms(1) by (simp_all add: valid_date_def)
  have vb: "1 \<le> year b" "1 \<le> month b" "month b \<le> 12" "1 \<le> day b"
      "day b \<le> days_in_month (year b) (month b)"
    using assms(2) by (simp_all add: valid_date_def)
  from assms(3) consider "year a < year b"
    | "year a = year b" "month a < month b"
    | "year a = year b" "month a = month b" "day a < day b"
    unfolding date_less_iff by blast
  then show ?thesis
  proof cases
    case 1
    have "toordinal a \<le> days_before_year (year a) + (if is_leap (year a) then 366 else 365)"
      using day_of_year_le[OF va(2,3,5)] by (simp add: toordinal_def)
    also have "\<dots> \<le> days_before_year (year b)" using dby_mono[OF va(1) 1] .
    also have "\<dots> < toordinal b" using vb(4) by (simp add: toordinal_def)
    finally show ?thesis .
  next
    case 2
    have "days_before_month (year a) (month a) + day a
           \<le> days_before_month (year a) (month a) + days_in_month (year a) (month a)"
      using va(5) by simp
    also have "\<dots> \<le> days_before_month (year a) (month b)"
      using dbm_mono[OF va(2) 2(2) vb(3)] .
    finally show ?thesis using 2(1) vb(4) by (simp add: toordinal_def)
  next
    case 3
    then show ?thesis by (simp add: toordinal_def)
  qed
qed

lemma date_less_iff_ordinal:
  assumes "valid_date a" "valid_date b"
  shows "date_less a b \<longleftrightarrow> toordinal a < toordinal b"
proof
  assume "date_less a b"
  then show "toordinal a < toordinal b" using toordinal_mono[OF assms] by simp
next
  assume lt: "toordinal a < toordinal b"
  show "date_less a b"
  proof (rule ccontr)
    assume n: "\<not> date_less a b"
    then consider "date_less b a" | "year a = year b \<and> month a = month b \<and> day a = day b"
      unfolding date_less_iff by force
    then show False
    proof cases
      case 1
      then show ?thesis using toordinal_mono[OF assms(2,1)] lt by simp
    next
      case 2
      then show ?thesis using lt by (simp add: toordinal_def)
    qed
  qed
qed

lemma fromordinal_valid:
  assumes "1 \<le> n" "n \<le> max_ordinal"
  shows "valid_date (fromordinal n) \<and> toordinal (fromordinal n) = n"
  using fromordinal_toordinal[OF assms(1)] assms(2) by (simp add: valid_date_def max_ordinal_def)


text \<open>Parsing the ISO form of a date of the calendar gives the date back.\<close>

lemma code_digit_char: "code (digit_char n) = 48 + n mod 10"
proof -
  have "48 + n mod 10 < 256" by simp
  then show ?thesis by (simp add: digit_char_def code_def)
qed

lemma is_digit_digit_char: "is_digit (digit_char n)"
  by (simp add: is_digit_def code_digit_char)

lemma digit_val_digit_char: "digit_val (digit_char n) = n mod 10"
  by (simp add: digit_val_def code_digit_char)

lemma digit_char_eq: "digit_char n = c \<longleftrightarrow> 48 + n mod 10 = code c"
  using code_digit_char[of n] by (metis code_def of_char_eq_iff)

lemma decimal_small: "n < 10 \<Longrightarrow> decimal n = [digit_char n]"
  by (subst decimal.simps) simp

lemma decimal_two: "10 \<le> n \<Longrightarrow> n < 100 \<Longrightarrow> decimal n = [digit_char (n div 10), digit_char n]"
  by (subst decimal.simps) (simp add: decimal_small)

lemma zero_pad2: "n < 100 \<Longrightarrow> zero_pad 2 n = [digit_char (n div 10), digit_char n]"
proof (cases "n < 10")
  case True
  then have "digit_char (n div 10) = CHR ''0''" by (simp add: digit_char_eq code_def)
  then show ?thesis using True by (simp add: zero_pad_def decimal_small)
next
  case False
  assume "n < 100"
  then show ?thesis using False by (simp add: zero_pad_def decimal_two)
qed


lemma decimal_three:
  "100 \<le> n \<Longrightarrow> n < 1000 \<Longrightarrow>
   decimal n = [digit_char (n div 100), digit_char (n div 10), digit_char n]"
proof -
  assume a: "100 \<le> n" "n < 1000"
  then have "10 \<le> n div 10" "n div 10 < 100" by simp_all
  then have "decimal (n div 10) = [digit_char (n div 10 div 10), digit_char (n div 10)]"
    by (rule decimal_two)
  moreover have "n div 10 div 10 = n div 100" by (simp add: div_mult2_eq[symmetric])
  ultimately show ?thesis using a by (subst decimal.simps) simp
qed

lemma decimal_four:
  "1000 \<le> n \<Longrightarrow> n < 10000 \<Longrightarrow>
   decimal n = [digit_char (n div 1000), digit_char (n div 100), digit_char (n div 10), digit_char n]"
proof -
  assume a: "1000 \<le> n" "n < 10000"
  then have "100 \<le> n div 10" "n div 10 < 1000" by simp_all
  then have "decimal (n div 10)
      = [digit_char (n div 10 div 100), digit_char (n div 10 div 10), digit_char (n div 10)]"
    by (rule decimal_three)
  moreover have "n div 10 div 10 = n div 100" "n div 10 div 100 = n div 1000"
    by (simp_all add: div_mult2_eq[symmetric])
  ultimately show ?thesis using a by (subst decimal.simps) simp
qed

lemma digit_char_zero: "digit_char 0 = CHR ''0''"
  by (simp add: digit_char_eq code_def)

lemma zero_pad4:
  assumes "n < 10000"
  shows "zero_pad 4 n
         = [digit_char (n div 1000), digit_char (n div 100), digit_char (n div 10), digit_char n]"
proof -
  have r3: "replicate 3 (CHR ''0'') = ''000''" by (simp add: numeral_3_eq_3)
  have r2: "replicate 2 (CHR ''0'') = ''00''" by (simp add: numeral_2_eq_2)
  consider "n < 10" | "10 \<le> n" "n < 100" | "100 \<le> n" "n < 1000" | "1000 \<le> n"
    by linarith
  then show ?thesis
  proof cases
    case 1
    then have "n div 1000 = 0" "n div 100 = 0" "n div 10 = 0" by simp_all
    then show ?thesis using 1
      by (simp add: zero_pad_def decimal_small r3 digit_char_zero)
  next
    case 2
    then have "n div 1000 = 0" "n div 100 = 0" by simp_all
    then show ?thesis using 2
      by (simp add: zero_pad_def decimal_two r2 digit_char_zero)
  next
    case 3
    then have "n div 1000 = 0" by simp_all
    then show ?thesis using 3
      by (simp add: zero_pad_def decimal_three digit_char_zero)
  next
    case 4
    then show ?thesis using assms by (simp add: zero_pad_def decimal_four)
  qed
qed

lemma digits_val4:
  assumes "n < 10000"
  shows "digits_val [digit_char (n div 1000), digit_char (n div 100), digit_char (n div 10), digit_char n] = n"
proof -
  define q1 where "q1 = n div 10"
  define q2 where "q2 = q1 div 10"
  define q3 where "q3 = q2 div 10"
  have e2: "n div 100 = q2" and e3: "n div 1000 = q3"
    by (simp_all add: q1_def q2_def q3_def div_mult2_eq[symmetric])
  have 0: "n = 10 * q1 + n mod 10" by (simp add: q1_def)
  have 1: "q1 = 10 * q2 + q1 mod 10" by (simp add: q2_def)
  have 2: "q2 = 10 * q3 + q2 mod 10" by (simp add: q3_def)
  have 3: "q3 mod 10 = q3" using assms e3 by simp
  have "digits_val [digit_char q3, digit_char q2, digit_char q1, digit_char n]
        = 10 * (10 * (10 * (q3 mod 10) + q2 mod 10) + q1 mod 10) + n mod 10"
    by (simp add: digits_val_def digit_val_digit_char)
  also have "\<dots> = 10 * (10 * q2 + q1 mod 10) + n mod 10" using 2 3 by simp
  also have "\<dots> = 10 * q1 + n mod 10" using 1 by simp
  also have "\<dots> = n" using 0 by simp
  finally show ?thesis by (simp add: e2 e3 q1_def)
qed


lemma day_alts_all:
  "list_all (\<lambda>dd. \<exists>tl. day_alts [digit_char (dd div 10), digit_char dd] = (dd, []) # tl) [1..<32]"
  by (simp add: upt_rec[of _ "numeral _"] day_alts_def digit_char_def is_digit19_def char_eval)

lemma day_alts_pad:
  assumes "1 \<le> dd" "dd \<le> 31"
  shows "\<exists>tl. day_alts (zero_pad 2 dd) = (dd, []) # tl"
proof -
  have "dd \<in> set [1..<32]" using assms by simp
  then have "\<exists>tl. day_alts [digit_char (dd div 10), digit_char dd] = (dd, []) # tl"
    using day_alts_all unfolding list_all_iff by blast
  then show ?thesis using assms by (simp add: zero_pad2)
qed

lemma month_alts_all:
  "list_all (\<lambda>m. \<forall>X. \<exists>tl. month_alts ([digit_char (m div 10), digit_char m] @ X) = (m, X) # tl) [1..<13]"
  by (simp add: upt_rec[of _ "numeral _"] month_alts_def digit_char_def is_digit19_def char_eval)

lemma month_alts_pad:
  assumes "1 \<le> m" "m \<le> 12"
  shows "\<exists>tl. month_alts (zero_pad 2 m @ X) = (m, X) # tl"
proof -
  have "m \<in> set [1..<13]" using assms by simp
  then have "\<forall>X. \<exists>tl. month_alts ([digit_char (m div 10), digit_char m] @ X) = (m, X) # tl"
    using month_alts_all unfolding list_all_iff by blast
  then show ?thesis using assms by (simp add: zero_pad2)
qed

lemma days_in_month_le: "1 \<le> m \<Longrightarrow> m \<le> 12 \<Longrightarrow> days_in_month y m \<le> 31"
  by (cases m rule: month_cases) (auto simp: days_in_month_def)

lemma strptime_isoformat:
  assumes "valid_date d"
  shows "strptime (isoformat d) = Some d"
proof -
  have v: "1 \<le> year d" "year d \<le> 9999" "1 \<le> month d" "month d \<le> 12" "1 \<le> day d"
      "day d \<le> days_in_month (year d) (month d)"
    using assms by (simp_all add: valid_date_def)
  have d31: "day d \<le> 31" using days_in_month_le[OF v(3,4)] v(6) by (rule_tac order_trans)
  obtain t1 where da: "day_alts (zero_pad 2 (day d)) = (day d, []) # t1"
    using day_alts_pad[OF v(5) d31] by blast
  obtain t2 where ma: "month_alts (zero_pad 2 (month d) @ CHR ''-'' # zero_pad 2 (day d))
      = (month d, CHR ''-'' # zero_pad 2 (day d)) # t2"
    using month_alts_pad[OF v(3,4)] by blast
  have mm: "match_month_day (month_alts (zero_pad 2 (month d) @ CHR ''-'' # zero_pad 2 (day d)))
      = Some (month d, day d, [])"
    by (simp add: ma da)
  have y: "year d < 10000" using v(2) by simp
  have rd: "\<lparr>year = year d, month = month d, day = day d\<rparr> = d" by simp
  show ?thesis
    unfolding isoformat_def strptime_def zero_pad4[OF y]
    using mm assms by (simp add: digits_val4[OF y] is_digit_digit_char Let_def rd)
qed

subsection \<open>Normalisation\<close>

lemma alnum_not_space: "is_lower_alnum c \<Longrightarrow> \<not> is_space c"
  by (auto simp: is_lower_alnum_def is_space_def Let_def)

lemma space_is_space: "is_space (CHR '' '')"
  by (simp add: is_space_def code_def)

lemma space_not_alnum: "\<not> is_lower_alnum (CHR '' '')"
  by (simp add: is_lower_alnum_def code_def)

lemma alnum_lower: "is_lower_alnum c \<Longrightarrow> lower_char c = c"
  by (auto simp: is_lower_alnum_def lower_char_def Let_def)

lemma space_lower: "lower_char (CHR '' '') = CHR '' ''"
  by (simp add: lower_char_def code_def)

lemma collapse_chars: "c \<in> set (collapse (\<lambda>c. \<not> is_lower_alnum c) s) \<Longrightarrow> is_lower_alnum c \<or> c = CHR '' ''"
  by (induction "\<lambda>c. \<not> is_lower_alnum c" s rule: collapse.induct) (auto split: if_splits)

lemma hd_dropWhile_alnum: "dropWhile (\<lambda>c. \<not> is_lower_alnum c) s = d # t \<Longrightarrow> is_lower_alnum d"
  using hd_dropWhile[of "\<lambda>c. \<not> is_lower_alnum c" s] by auto

lemma collapse_hd: "collapse P s = d # t \<Longrightarrow> s \<noteq> [] \<and> (if P (hd s) then d = CHR '' '' else d = hd s)"
  by (cases s) (auto split: if_splits)

lemma collapse_isolated: "isolated (collapse (\<lambda>c. \<not> is_lower_alnum c) s)"
proof (induction "\<lambda>c. \<not> is_lower_alnum c" s rule: collapse.induct)
  case 1 show ?case by simp
next
  case (2 c cs)
  show ?case
  proof (cases "is_lower_alnum c")
    case True
    then show ?thesis using 2 by (cases "collapse (\<lambda>c. \<not> is_lower_alnum c) cs") auto
  next
    case False
    let ?r = "collapse (\<lambda>c. \<not> is_lower_alnum c) (dropWhile (\<lambda>c. \<not> is_lower_alnum c) cs)"
    have iso: "isolated ?r" using 2 False by simp
    show ?thesis
    proof (cases ?r)
      case Nil then show ?thesis using False by simp
    next
      case (Cons d t)
      from collapse_hd[OF Cons] have ne: "dropWhile (\<lambda>c. \<not> is_lower_alnum c) cs \<noteq> []" by simp
      then obtain e u where eu: "dropWhile (\<lambda>c. \<not> is_lower_alnum c) cs = e # u" by (cases "dropWhile (\<lambda>c. \<not> is_lower_alnum c) cs") auto
      from hd_dropWhile_alnum[OF eu] have "is_lower_alnum e" .
      with collapse_hd[OF Cons] eu have "d = e" by simp
      with \<open>is_lower_alnum e\<close> iso Cons False show ?thesis by simp
    qed
  qed
qed

lemma collapse_tidy: "tidy (collapse (\<lambda>c. \<not> is_lower_alnum c) s)"
  using collapse_chars collapse_isolated by (auto simp: tidy_def)

lemma tidy_tl: "tidy (c # s) \<Longrightarrow> tidy s"
  by (cases s) (auto simp: tidy_def)

lemma tidy_collapse_nonalnum: "tidy s \<Longrightarrow> collapse (\<lambda>c. \<not> is_lower_alnum c) s = s"
proof (induction s)
  case Nil then show ?case by simp
next
  case (Cons c s)
  then have ih: "collapse (\<lambda>c. \<not> is_lower_alnum c) s = s" using tidy_tl by blast
  show ?case
  proof (cases "is_lower_alnum c")
    case True then show ?thesis using ih by simp
  next
    case False
    then have c: "c = CHR '' ''" using Cons.prems by (auto simp: tidy_def)
    have "dropWhile (\<lambda>c. \<not> is_lower_alnum c) s = s"
      using Cons.prems False by (cases s) (auto simp: tidy_def)
    then show ?thesis using False ih c by simp
  qed
qed

lemma tidy_collapse_space: "tidy s \<Longrightarrow> collapse is_space s = s"
proof (induction s)
  case Nil then show ?case by simp
next
  case (Cons c s)
  then have ih: "collapse is_space s = s" using tidy_tl by blast
  show ?case
  proof (cases "is_lower_alnum c")
    case True then show ?thesis using ih alnum_not_space by simp
  next
    case False
    then have c: "c = CHR '' ''" using Cons.prems by (auto simp: tidy_def)
    have "dropWhile is_space s = s"
      using Cons.prems False alnum_not_space by (cases s) (auto simp: tidy_def)
    then show ?thesis using ih c space_is_space by simp
  qed
qed

lemma lower_fixed: "\<forall>c \<in> set s. is_lower_alnum c \<or> c = CHR '' '' \<Longrightarrow> map lower_char s = s"
  by (induction s) (auto simp: alnum_lower space_lower)

lemma tidy_lower: "tidy s \<Longrightarrow> lower s = s"
  unfolding lower_def tidy_def using lower_fixed by blast

lemma isolated_append: "isolated (xs @ ys) \<Longrightarrow> isolated xs \<and> isolated ys"
  by (induction xs rule: isolated.induct) (auto, (case_tac ys; simp)+)


lemma strip_decomp: "\<exists>pre post. s = pre @ strip s @ post"
proof -
  let ?t = "dropWhile is_space s"
  have 1: "s = takeWhile is_space s @ ?t" by simp
  have "?t = rev (dropWhile is_space (rev ?t)) @ rev (takeWhile is_space (rev ?t))"
    by (metis rev_append rev_rev_ident takeWhile_dropWhile_id)
  then have 2: "?t = strip s @ rev (takeWhile is_space (rev ?t))"
    by (simp add: strip_def)
  from 1 2 have "s = takeWhile is_space s @ strip s @ rev (takeWhile is_space (rev ?t))" by simp
  then show ?thesis by blast
qed

lemma tidy_strip: "tidy s \<Longrightarrow> tidy (strip s)"
proof -
  assume t: "tidy s"
  obtain pre post where d: "s = pre @ strip s @ post" using strip_decomp by blast
  have "isolated (pre @ strip s @ post)" using t d by (simp add: tidy_def)
  then have "isolated (strip s)" using isolated_append by blast
  moreover have "set (strip s) \<subseteq> set s" using d by (metis Un_iff set_append subsetI)
  ultimately show ?thesis using t by (auto simp: tidy_def)
qed

lemma strip_ends: "strip s = [] \<or> (\<not> is_space (hd (strip s)) \<and> \<not> is_space (last (strip s)))"
proof (cases "strip s = []")
  case True then show ?thesis by simp
next
  case False
  let ?t = "dropWhile is_space s"
  let ?u = "dropWhile is_space (rev ?t)"
  have r: "strip s = rev ?u" by (simp add: strip_def)
  with False have une: "?u \<noteq> []" by simp
  then have "\<not> is_space (hd ?u)" using hd_dropWhile by blast
  then have l: "\<not> is_space (last (strip s))" using r une by (simp add: last_rev)
  have tne: "?t \<noteq> []" using une by (cases "?t = []") simp_all
  then have ht: "\<not> is_space (hd ?t)" using hd_dropWhile by blast
  have "?t = strip s @ rev (takeWhile is_space (rev ?t))"
    by (metis r rev_append rev_rev_ident takeWhile_dropWhile_id)
  then have "hd ?t = hd (strip s)" using False by (metis hd_append2)
  with ht l show ?thesis by simp
qed

lemma strip_fix: "s = [] \<or> (\<not> is_space (hd s) \<and> \<not> is_space (last s)) \<Longrightarrow> strip s = s"
proof (cases "s = []")
  case True then show ?thesis by (simp add: strip_def)
next
  case False
  assume "s = [] \<or> (\<not> is_space (hd s) \<and> \<not> is_space (last s))"
  with False have h: "\<not> is_space (hd s)" and l: "\<not> is_space (last s)" by auto
  from h False have 1: "dropWhile is_space s = s" by (cases s) auto
  from l False have 2: "dropWhile is_space (rev s) = rev s" by (cases "rev s") (auto simp: last_rev[symmetric] hd_rev)
  show ?thesis by (simp add: strip_def 1 2)
qed

lemma strip_idem: "strip (strip s) = strip s"
  using strip_fix[OF strip_ends] .

lemma norm_text_char: "norm_text s = strip (collapse (\<lambda>c. \<not> is_lower_alnum c) (lower s))"
  by (simp add: norm_text_def tidy_collapse_space[OF collapse_tidy])

lemma norm_text_tidy: "tidy (norm_text s)"
  unfolding norm_text_char by (rule tidy_strip[OF collapse_tidy])

lemma norm_text_idem: "norm_text (norm_text s) = norm_text s"
proof -
  let ?r = "norm_text s"
  have t: "tidy ?r" by (rule norm_text_tidy)
  have "norm_text ?r = strip ?r"
    by (simp add: norm_text_char[of ?r] tidy_lower[OF t] tidy_collapse_nonalnum[OF t])
  also have "\<dots> = ?r" unfolding norm_text_char by (rule strip_idem)
  finally show ?thesis .
qed

text \<open>
  Claim C6. For every string \<open>s\<close>, \<open>norm_text\<close> is idempotent; it is the trimmed result of
  lower-casing \<open>s\<close> and collapsing every run of characters outside \<open>[a-z0-9]\<close> to one
  space (the second substitution, on whitespace runs, changes nothing); and
  \<open>norm_text("Acme-Co., Ltd!!")\<close> is \<open>"acme co ltd"\<close>.
\<close>

theorem norm_text_idempotent:
  "norm_text (norm_text s) = norm_text s
   \<and> norm_text s = strip (collapse (\<lambda>c. \<not> is_lower_alnum c) (lower s))
   \<and> norm_text ''Acme-Co., Ltd!!'' = ''acme co ltd''"
proof -
  have "norm_text ''Acme-Co., Ltd!!'' = ''acme co ltd''"
    by (simp add: norm_text_def lower_def lower_char_def code_def char_of_def bit_Suc_0_iff
        is_lower_alnum_def is_space_def strip_def)
  then show ?thesis using norm_text_idem norm_text_char by blast
qed

theorem norm_text_idempotent_witness:
  "norm_text (norm_text ''  Foo--BAR  9'') = norm_text ''  Foo--BAR  9''
   \<and> norm_text ''  Foo--BAR  9'' = ''foo bar 9''"
proof -
  have "norm_text ''  Foo--BAR  9'' = ''foo bar 9''"
    by (simp add: norm_text_def lower_def lower_char_def code_def char_of_def bit_Suc_0_iff
        is_lower_alnum_def is_space_def strip_def)
  moreover have "norm_text (norm_text ''  Foo--BAR  9'') = norm_text ''  Foo--BAR  9''"
    using norm_text_idempotent [of "''  Foo--BAR  9''"] by blast
  ultimately show ?thesis by blast
qed

subsection \<open>Risk classification\<close>

lemma score_step_counts:
  "score_step cf (s, m) x =
     (s + (if spec_strong cf x then 1 else 0), m + (if spec_medium cf x then 1 else 0))"
  by (auto simp: score_step_def spec_strong_def spec_medium_def passes_class_filter_def)

lemma score_fold_counts:
  "foldl (score_step cf) (s, m) xs =
     (s + length (filter (spec_strong cf) xs), m + length (filter (spec_medium cf) xs))"
  by (induction xs arbitrary: s m) (simp_all add: score_step_counts)

lemma score_counts_eq:
  "score_counts xs cf = (length (filter (spec_strong cf) xs), length (filter (spec_medium cf) xs))"
  by (simp add: score_counts_def score_fold_counts)

lemma filter_nonempty_iff: "(0 < length (filter P xs)) = (\<exists>x \<in> set xs. P x)"
  by (simp add: filter_empty_conv)

text \<open>
  Claim C2. For every list of scored mark summaries and every class-code filter,
  \<open>score_risk\<close> is "high" iff some record that passes the class filter is active with
  similarity at least 0.92, otherwise "medium" iff some such record is active with
  similarity in [0.85, 0.92), otherwise "low". The two counters of the loop are the
  numbers of strong and of medium records, no record is both, and one active record at
  0.93 with one at 0.86 gives "high".
\<close>

theorem score_risk_tiers:
  "score_risk matches class_filter =
     (if \<exists>m \<in> set matches. spec_strong class_filter m then ''high''
      else if \<exists>m \<in> set matches. spec_medium class_filter m then ''medium''
      else ''low'')
   \<and> score_counts matches class_filter =
       (length (filter (spec_strong class_filter) matches),
        length (filter (spec_medium class_filter) matches))
   \<and> \<not> (spec_strong class_filter m \<and> spec_medium class_filter m)
   \<and> score_risk [summary_with True (93 / 100) cs, summary_with True (86 / 100) cs] [] = ''high''"
proof -
  have 1: "score_risk matches class_filter =
     (if \<exists>m \<in> set matches. spec_strong class_filter m then ''high''
      else if \<exists>m \<in> set matches. spec_medium class_filter m then ''medium''
      else ''low'')"
    by (auto simp: score_risk_def score_counts_eq filter_empty_conv)
  have 2: "\<not> (spec_strong class_filter m \<and> spec_medium class_filter m)"
    by (auto simp: spec_strong_def spec_medium_def)
  have 3: "score_risk [summary_with True (93 / 100) cs, summary_with True (86 / 100) cs] [] = ''high''"
    by (simp add: score_risk_def score_counts_def score_step_def summary_with_def)
  show ?thesis using 1 2 3 score_counts_eq by blast
qed

theorem score_risk_tiers_witness:
  "score_risk [summary_with True (86 / 100) [''9''], summary_with True (93 / 100) [''9'', ''35''],
               summary_with False (99 / 100) [''35''], summary_with True (95 / 100) [''42'']] [''35'']
     = ''high''
   \<and> score_counts [summary_with True (86 / 100) [''9''], summary_with True (93 / 100) [''9'', ''35''],
               summary_with False (99 / 100) [''35''], summary_with True (95 / 100) [''42'']] [''35'']
     = (1, 0)
   \<and> score_risk [summary_with True (86 / 100) [''9''], summary_with True (919 / 1000) [''9'']] [] = ''medium''
   \<and> score_risk [summary_with True (84 / 100) [''9''], summary_with False (1) [''9'']] [] = ''low''"
proof -
  let ?ms = "[summary_with True (86 / 100) [''9''], summary_with True (93 / 100) [''9'', ''35''],
               summary_with False (99 / 100) [''35''], summary_with True (95 / 100) [''42'']]"
  have s: "spec_strong [''35''] (summary_with True (93 / 100) [''9'', ''35''])"
    by (simp add: spec_strong_def passes_class_filter_def summary_with_def)
  have a: "score_risk ?ms [''35''] = ''high''"
    using score_risk_tiers [of ?ms "[''35'']"] s by auto
  have b: "score_counts ?ms [''35''] = (1, 0)"
    using score_risk_tiers [of ?ms "[''35'']"]
    by (simp add: spec_strong_def spec_medium_def passes_class_filter_def summary_with_def)
  have c: "score_risk [summary_with True (86 / 100) [''9''], summary_with True (919 / 1000) [''9'']] [] = ''medium''"
    using score_risk_tiers [of "[summary_with True (86 / 100) [''9''], summary_with True (919 / 1000) [''9'']]" "[]"]
    by (simp add: spec_strong_def spec_medium_def passes_class_filter_def summary_with_def)
  have d: "score_risk [summary_with True (84 / 100) [''9''], summary_with False (1) [''9'']] [] = ''low''"
    using score_risk_tiers [of "[summary_with True (84 / 100) [''9''], summary_with False (1) [''9'']]" "[]"]
    by (simp add: spec_strong_def spec_medium_def passes_class_filter_def summary_with_def)
  show ?thesis using a b c d by blast
qed

subsection \<open>Owner type\<close>

lemma contains_iff: "contains s x \<longleftrightarrow> (\<exists>pre suf. s = pre @ x @ suf)"
proof (induction s)
  case Nil
  then show ?case by simp
next
  case (Cons c cs)
  show ?case
  proof
    assume "contains (c # cs) x"
    then consider "prefix x (c # cs)" | "contains cs x" by auto
    then show "\<exists>pre suf. c # cs = pre @ x @ suf"
    proof cases
      case 1
      then obtain suf where "c # cs = x @ suf" by (auto simp: prefix_def)
      then have "c # cs = [] @ x @ suf" by simp
      then show ?thesis by blast
    next
      case 2
      then obtain pre suf where "cs = pre @ x @ suf" using Cons.IH by blast
      then have "c # cs = (c # pre) @ x @ suf" by simp
      then show ?thesis by blast
    qed
  next
    assume "\<exists>pre suf. c # cs = pre @ x @ suf"
    then obtain pre suf where d: "c # cs = pre @ x @ suf" by blast
    show "contains (c # cs) x"
    proof (cases pre)
      case Nil
      then have "prefix x (c # cs)" using d by (simp add: prefix_def)
      then show ?thesis by simp
    next
      case (Cons p pre')
      then have "cs = pre' @ x @ suf" using d by simp
      then have "contains cs x" using Cons.IH by blast
      then show ?thesis by simp
    qed
  qed
qed

text \<open>
  Claim C8, amended. \<open>infer_owner_type\<close> returns "unknown" for the empty name; "company"
  when the lower-cased name contains one of the markers " ltd", " limited", " llc",
  " inc", " corp", " gmbh", " plc", " llp" (each with its leading space), " and ",
  " & "; and "individual_or_other" for every other non-empty name.
\<close>

theorem infer_owner_type_cases:
  "infer_owner_type name =
     (if name = [] then ''unknown''
      else if \<exists>x \<in> set company_markers. \<exists>pre suf. lower name = pre @ x @ suf then ''company''
      else ''individual_or_other'')"
proof -
  have "list_ex (contains (lower name))
          ['' ltd'', '' limited'', '' llc'', '' inc'', '' corp'', '' gmbh'', '' plc'', '' llp'']
        \<or> contains (lower name) '' and '' \<or> contains (lower name) '' & ''
        \<longleftrightarrow> (\<exists>x \<in> set company_markers. contains (lower name) x)"
    by (simp add: company_markers_def)
  then show ?thesis
    unfolding infer_owner_type_def Let_def contains_iff [symmetric] by auto
qed

theorem infer_owner_type_cases_witness:
  "infer_owner_type ''Acme Robotics Ltd'' = ''company''
   \<and> infer_owner_type ''Smith & Sons'' = ''company''
   \<and> infer_owner_type ''Jane Doe'' = ''individual_or_other''
   \<and> infer_owner_type [] = ''unknown''"
proof -
  have l: "lower ''Acme Robotics Ltd'' = ''acme robotics'' @ '' ltd'' @ []"
    by (simp add: lower_def lower_char_def code_def char_of_def bit_Suc_0_iff)
  have "'' ltd'' \<in> set company_markers" by (simp add: company_markers_def)
  with l have "\<exists>x \<in> set company_markers. \<exists>pre suf. lower ''Acme Robotics Ltd'' = pre @ x @ suf"
    by blast
  then have a: "infer_owner_type ''Acme Robotics Ltd'' = ''company''"
    using infer_owner_type_cases [of "''Acme Robotics Ltd''"] by simp
  have b: "infer_owner_type ''Smith & Sons'' = ''company''"
    by (simp add: infer_owner_type_def lower_def lower_char_def code_def char_of_def bit_Suc_0_iff)
  have c: "infer_owner_type ''Jane Doe'' = ''individual_or_other''"
    by (simp add: infer_owner_type_def lower_def lower_char_def code_def char_of_def bit_Suc_0_iff)
  have d: "infer_owner_type [] = ''unknown''"
    using infer_owner_type_cases [of "[]"] by simp
  show ?thesis using a b c d by blast
qed

text \<open>The claim as the specification words it, with the markers "ltd", "inc" and so on
  without a leading space, fails: "Lincoln" contains "inc" and is no company.\<close>

theorem infer_owner_type_counterexample:
  "contains (lower ''Lincoln'') ''inc'' \<and> infer_owner_type ''Lincoln'' = ''individual_or_other''"
  by (simp add: infer_owner_type_def lower_def lower_char_def code_def char_of_def bit_Suc_0_iff)

subsection \<open>Spreadsheet date serials\<close>


lemma epoch_ordinal: "toordinal \<lparr>year = 1899, month = 12, day = 30\<rparr> = 693594"
  by (simp add: toordinal_def days_before_year_def days_before_month_def is_leap_def)

text \<open>
  Claim C7, amended. For every input string, with \<open>t\<close> the stripped input: an empty \<open>t\<close>
  and the null tokens map to the empty string; a \<open>t\<close> that \<open>float\<close> cannot read is
  returned as it is, not as the empty string; a numeric \<open>t\<close> of value at most 0 maps to
  the empty string; and a positive numeric \<open>t\<close> whose whole part \<open>n\<close> is at most 2958465
  maps to the ISO form of the date \<open>n\<close> days after 1899-12-30.
\<close>

theorem excel_date_to_iso_cases:
  "(strip s = [] \<or> strip s \<in> set NULL_VALUES \<longrightarrow> excel_date_to_iso s = Inr [])
   \<and> (strip s \<noteq> [] \<and> strip s \<notin> set NULL_VALUES \<longrightarrow>
        (py_float (strip s) = None \<longrightarrow> excel_date_to_iso s = Inr (strip s))
      \<and> (py_float (strip s) = Some NegInf \<longrightarrow> excel_date_to_iso s = Inr [])
      \<and> (\<forall>v. py_float (strip s) = Some (Finite v) \<and> v \<le> 0 \<longrightarrow> excel_date_to_iso s = Inr [])
      \<and> (\<forall>v. py_float (strip s) = Some (Finite v) \<and> 0 < v \<and> \<lfloor>v\<rfloor> \<le> 2958465 \<longrightarrow>
            (\<exists>d. valid_date d
               \<and> toordinal d = toordinal \<lparr>year = 1899, month = 12, day = 30\<rparr> + nat \<lfloor>v\<rfloor>
               \<and> excel_date_to_iso s = Inr (isoformat d))))"
proof -
  have pos: "\<exists>d. valid_date d
               \<and> toordinal d = toordinal \<lparr>year = 1899, month = 12, day = 30\<rparr> + nat \<lfloor>v\<rfloor>
               \<and> excel_date_to_iso s = Inr (isoformat d)"
    if ne: "strip s \<noteq> []" "strip s \<notin> set NULL_VALUES"
      and f: "py_float (strip s) = Some (Finite v)" and v: "0 < v" "\<lfloor>v\<rfloor> \<le> 2958465" for v
  proof -
    let ?k = "693594 + nat \<lfloor>v\<rfloor>"
    have nl: "nat \<lfloor>v\<rfloor> \<le> 2958465" using v(2) by linarith
    have k: "1 \<le> ?k" "?k \<le> max_ordinal" using nl by (simp_all add: max_ordinal_def)
    have n: "\<not> nat \<lfloor>v\<rfloor> > 999999999" using nl by simp
    have add: "date_add_days \<lparr>year = 1899, month = 12, day = 30\<rparr> (nat \<lfloor>v\<rfloor>) = Inr (fromordinal ?k)"
      unfolding date_add_days_def Let_def epoch_ordinal using k n by simp
    have "excel_date_to_iso s = Inr (isoformat (fromordinal ?k))"
      using ne f v(1) add by (simp add: excel_date_to_iso_def Let_def)
    then show ?thesis using fromordinal_valid[OF k] epoch_ordinal by auto
  qed
  show ?thesis
    using pos by (auto simp: excel_date_to_iso_def Let_def)
qed

theorem excel_date_to_iso_cases_witness:
  "excel_date_to_iso '' 45000.7'' = Inr ''2023-03-15''
   \<and> (\<exists>d. valid_date d \<and> toordinal d = 693594 + 45000
          \<and> excel_date_to_iso '' 45000.7'' = Inr (isoformat d))
   \<and> excel_date_to_iso ''-3'' = Inr []
   \<and> excel_date_to_iso ''n/a'' = Inr []"
proof -
  have st: "strip '' 45000.7'' = ''45000.7''" by (simp add: strip_def char_eval)
  have nn: "strip '' 45000.7'' \<noteq> []" "strip '' 45000.7'' \<notin> set NULL_VALUES"
    by (simp_all add: st NULL_VALUES_def)
  have fl0: "\<lfloor>30924245567537152 / 5 :: rat\<rfloor> = 6184849113507430" by (simp add: floor_eq_iff)
  have f: "py_float ''45000.7'' = Some (Finite (3092424556753715 / 68719476736))"
    by (simp add: fl0 py_float_def strip_underscores_def strip_def parse_decimal_def take_sign_def
        round_binary64_def floor_log2_def pow2_def round_half_even_def char_eval Let_def)
  have fl: "\<lfloor>3092424556753715 / 68719476736 :: rat\<rfloor> = 45000" by (simp add: floor_eq_iff)
  have pre: "py_float (strip '' 45000.7'') = Some (Finite (3092424556753715 / 68719476736))
      \<and> 0 < (3092424556753715 / 68719476736 :: rat)
      \<and> \<lfloor>3092424556753715 / 68719476736 :: rat\<rfloor> \<le> 2958465"
    using f fl by (simp add: st)
  have "\<exists>d. valid_date d
          \<and> toordinal d = toordinal \<lparr>year = 1899, month = 12, day = 30\<rparr>
                             + nat \<lfloor>3092424556753715 / 68719476736 :: rat\<rfloor>
          \<and> excel_date_to_iso '' 45000.7'' = Inr (isoformat d)"
    using excel_date_to_iso_cases [of "'' 45000.7''"] nn pre by blast
  then have a: "\<exists>d. valid_date d \<and> toordinal d = 693594 + 45000
          \<and> excel_date_to_iso '' 45000.7'' = Inr (isoformat d)"
    by (simp add: fl epoch_ordinal)
  have b: "excel_date_to_iso '' 45000.7'' = Inr ''2023-03-15''"
    by (simp add: excel_date_to_iso_def st NULL_VALUES_def f fl date_add_days_def epoch_ordinal
        max_ordinal_def isoformat_def fromordinal_def Let_def digit_char_def zero_pad_def decimal.simps char_eval)
  have f3: "py_float ''-3'' = Some (Finite (- 3))"
    by (simp add: py_float_def strip_underscores_def strip_def parse_decimal_def take_sign_def
        round_binary64_def floor_log2_def pow2_def round_half_even_def negate_def char_eval Let_def)
  have s3: "strip ''-3'' = ''-3''" by (simp add: strip_def char_eval)
  have c: "excel_date_to_iso ''-3'' = Inr []"
    using excel_date_to_iso_cases [of "''-3''"] f3 by (simp add: s3 NULL_VALUES_def)
  have sn: "strip ''n/a'' = ''n/a''" by (simp add: strip_def char_eval)
  have d: "excel_date_to_iso ''n/a'' = Inr []"
    using excel_date_to_iso_cases [of "''n/a''"] by (simp add: sn NULL_VALUES_def)
  show ?thesis using a b c d by blast
qed

text \<open>The claim as the specification words it fails on its last part: \<open>float\<close> cannot read
  "abc", and the converter returns "abc", not the empty string.\<close>

theorem excel_date_to_iso_counterexample:
  "py_float ''abc'' = None \<and> excel_date_to_iso ''abc'' = Inr ''abc''"
  by (simp add: excel_date_to_iso_def strip_def NULL_VALUES_def py_float_def strip_underscores_def
      parse_decimal_def take_sign_def parse_inf_nan_def lower_def lower_char_def char_eval)

subsection \<open>Activity of a mark\<close>

lemma strptime_valid: "strptime s = Some d \<Longrightarrow> valid_date d"
  unfolding strptime_def
  by (simp add: Let_def split: list.splits if_splits option.splits prod.splits)

lemma dby_10000: "days_before_year 10000 = 3652059"
  by (simp add: days_before_year_def)

lemma toordinal_le_max:
  assumes "valid_date d"
  shows "1 \<le> toordinal d \<and> toordinal d \<le> max_ordinal"
proof -
  have v: "1 \<le> year d" "year d \<le> 9999" "1 \<le> month d" "month d \<le> 12" "1 \<le> day d"
      "day d \<le> days_in_month (year d) (month d)"
    using assms by (simp_all add: valid_date_def)
  have "toordinal d \<le> days_before_year (year d) + (if is_leap (year d) then 366 else 365)"
    using day_of_year_le[OF v(3,4,6)] by (simp add: toordinal_def)
  also have "\<dots> \<le> days_before_year 10000" using dby_mono[OF v(1), of 10000] v(2) by simp
  finally have "toordinal d \<le> max_ordinal" by (simp add: dby_10000 max_ordinal_def)
  moreover have "1 \<le> toordinal d" using v(5) by (simp add: toordinal_def)
  ultimately show ?thesis by simp
qed

lemma registered_status: "lower (strip ''Registered'') \<notin> set inactive_statuses"
  by (simp add: inactive_statuses_def lower_def lower_char_def strip_def char_eval)

lemma is_active_registered:
  assumes "valid_date d"
  shows "is_active today ''Registered'' (isoformat d) \<longleftrightarrow> \<not> date_less d today"
proof -
  have "isoformat d \<noteq> []" by (simp add: isoformat_def)
  then show ?thesis
    using registered_status strptime_isoformat[OF assms] by (simp add: is_active_def Let_def)
qed

text \<open>
  Claim C3, amended. For every status string and expiry string, a mark is inactive iff
  its trimmed, lower-cased status is one of dead, expired, withdrawn, revoked, cancelled,
  removed, or its expiry value is present, is accepted by \<open>strptime\<close> with the format
  \<open>%Y-%m-%d\<close> (which also reads a month or day of one digit) and is strictly before the
  current UTC date; otherwise it is active. A mark with status "Registered" whose expiry
  is the ISO form of yesterday is inactive, and of today or tomorrow active.
\<close>

theorem is_active_iff:
  "(is_active today st ex \<longleftrightarrow>
      \<not> (lower (strip st) \<in> set inactive_statuses
         \<or> (\<exists>d. ex \<noteq> [] \<and> strptime ex = Some d \<and> date_less d today)))
   \<and> (valid_date today \<longrightarrow>
        (2 \<le> toordinal today \<longrightarrow>
           \<not> is_active today ''Registered'' (isoformat (fromordinal (toordinal today - 1))))
        \<and> is_active today ''Registered'' (isoformat today)
        \<and> (toordinal today < max_ordinal \<longrightarrow>
             is_active today ''Registered'' (isoformat (fromordinal (toordinal today + 1)))))"
proof -
  have 1: "is_active today st ex \<longleftrightarrow>
      \<not> (lower (strip st) \<in> set inactive_statuses
         \<or> (\<exists>d. ex \<noteq> [] \<and> strptime ex = Some d \<and> date_less d today))"
    by (auto simp: is_active_def Let_def split: option.splits)
  have 2: "\<not> is_active today ''Registered'' (isoformat (fromordinal (toordinal today - 1)))"
    if v: "valid_date today" and k: "2 \<le> toordinal today"
  proof -
    have r: "1 \<le> toordinal today - 1" "toordinal today - 1 \<le> max_ordinal"
      using k toordinal_le_max[OF v] by simp_all
    note f = fromordinal_valid[OF r]
    have "date_less (fromordinal (toordinal today - 1)) today"
      using date_less_iff_ordinal[of "fromordinal (toordinal today - 1)" today] f v k by simp
    then show ?thesis using is_active_registered[of "fromordinal (toordinal today - 1)"] f by simp
  qed
  have 3: "is_active today ''Registered'' (isoformat today)" if v: "valid_date today"
    using is_active_registered[OF v, of today] date_less_iff_ordinal[OF v v] by simp
  have 4: "is_active today ''Registered'' (isoformat (fromordinal (toordinal today + 1)))"
    if v: "valid_date today" and k: "toordinal today < max_ordinal"
  proof -
    have r: "1 \<le> toordinal today + 1" "toordinal today + 1 \<le> max_ordinal"
      using k by simp_all
    note f = fromordinal_valid[OF r]
    have "\<not> date_less (fromordinal (toordinal today + 1)) today"
      using date_less_iff_ordinal[of "fromordinal (toordinal today + 1)" today] f v by simp
    then show ?thesis using is_active_registered[of "fromordinal (toordinal today + 1)"] f by simp
  qed
  show ?thesis using 1 2 3 4 by blast
qed

theorem is_active_iff_witness:
  "\<not> is_active \<lparr>year = 2024, month = 3, day = 1\<rparr> ''Registered'' ''2024-02-29''
   \<and> is_active \<lparr>year = 2024, month = 3, day = 1\<rparr> ''Registered'' ''2024-03-01''
   \<and> is_active \<lparr>year = 2024, month = 3, day = 1\<rparr> ''Registered'' ''2024-03-02''
   \<and> \<not> is_active \<lparr>year = 2024, month = 3, day = 1\<rparr> '' Expired '' []"
proof -
  let ?t = "\<lparr>year = 2024, month = 3, day = 1\<rparr>"
  have v: "valid_date ?t" by (simp add: valid_date_def days_in_month_def)
  have k: "toordinal ?t = 738946"
    by (simp add: toordinal_def days_before_year_def days_before_month_def is_leap_def)
  have y: "isoformat (fromordinal (738946 - 1)) = ''2024-02-29''"
    by (simp add: isoformat_def fromordinal_def Let_def zero_pad_def decimal.simps digit_char_def char_eval)
  have t: "isoformat ?t = ''2024-03-01''"
    by (simp add: isoformat_def zero_pad_def decimal.simps digit_char_def char_eval)
  have m: "isoformat (fromordinal (738946 + 1)) = ''2024-03-02''"
    by (simp add: isoformat_def fromordinal_def Let_def zero_pad_def decimal.simps digit_char_def char_eval)
  have s: "lower (strip '' Expired '') \<in> set inactive_statuses"
    by (simp add: inactive_statuses_def lower_def lower_char_def strip_def char_eval)
  have k2: "2 \<le> toordinal ?t" and k3: "toordinal ?t < max_ordinal"
    using k by (simp_all add: max_ordinal_def)
  have "\<not> is_active ?t ''Registered'' (isoformat (fromordinal (toordinal ?t - 1)))"
    using is_active_iff [of ?t "[]" "[]"] v k2 by blast
  then have a: "\<not> is_active ?t ''Registered'' ''2024-02-29''" using y k by simp
  have "is_active ?t ''Registered'' (isoformat ?t)"
    using is_active_iff [of ?t "[]" "[]"] v by blast
  then have b: "is_active ?t ''Registered'' ''2024-03-01''" using t by simp
  have "is_active ?t ''Registered'' (isoformat (fromordinal (toordinal ?t + 1)))"
    using is_active_iff [of ?t "[]" "[]"] v k3 by blast
  then have c: "is_active ?t ''Registered'' ''2024-03-02''" using m k by simp
  have "is_active ?t '' Expired '' [] \<longleftrightarrow>
      \<not> (lower (strip '' Expired '') \<in> set inactive_statuses
         \<or> (\<exists>d. ([]::string) \<noteq> [] \<and> strptime [] = Some d \<and> date_less d ?t))"
    using is_active_iff [of ?t "'' Expired ''" "[]"] by (rule conjunct1)
  then have d: "\<not> is_active ?t '' Expired '' []" using s by simp
  show ?thesis using a b c d by (intro conjI)
qed

text \<open>The claim as the specification words it, with the strict form \<open>YYYY-MM-DD\<close>, fails:
  "2020-1-5" is not of that form, yet it is read as a date and makes the mark inactive.\<close>

theorem is_active_counterexample:
  "\<not> strict_iso ''2020-1-5''
   \<and> lower (strip ''Registered'') \<notin> set inactive_statuses
   \<and> \<not> is_active \<lparr>year = 2024, month = 3, day = 1\<rparr> ''Registered'' ''2020-1-5''"
proof -
  have 1: "\<not> strict_iso ''2020-1-5''"
    by (simp add: strict_iso_def)
  have 2: "strptime ''2020-1-5'' = Some \<lparr>year = 2020, month = 1, day = 5\<rparr>"
    by (simp add: strptime_def month_alts_def day_alts_def is_digit19_def valid_date_def
        days_in_month_def is_leap_def char_eval)
  have 3: "\<not> is_active \<lparr>year = 2024, month = 3, day = 1\<rparr> ''Registered'' ''2020-1-5''"
    using registered_status by (simp add: is_active_def 2 date_less_def less_prod_def)
  show ?thesis using 1 3 registered_status by blast
qed

subsection \<open>Mark retrieval\<close>








lemma mset_eq_Nil_iff:
  assumes "mset xs = mset ys"
  shows "xs = [] \<longleftrightarrow> ys = []"
  using assms by (metis mset_zero_iff)







subsection \<open>Deduplicating ingestion of marks\<close>









subsection \<open>Unreadable text files\<close>












subsection \<open>A patent match\<close>

lemma matching_acme: "matching_size ''acme robotic'' ''acme robotics ltd'' 0 12 0 17 = 12"
  by code_simp

lemma binary64_24_29: "round_binary64 24 29 = Finite (7454233865992545 / 9007199254740992)"
proof -
  have fl: "\<lfloor>216172782113783808 / 29 :: rat\<rfloor> = 7454233865992545" by (simp add: floor_eq_iff)
  show ?thesis
    by (simp add: fl round_binary64_def floor_log2_def pow2_def round_half_even_def Let_def)
qed

lemma similarity_acme:
  "similarity ''acme robotic'' ''acme robotics ltd'' = 7454233865992545 / 9007199254740992"
proof -
  have l: "length ''acme robotic'' = 12" "length ''acme robotics ltd'' = 17" by simp_all
  have "similarity ''acme robotic'' ''acme robotics ltd'' =
      (case round_binary64 (2 * 12) (12 + 17) of Finite v \<Rightarrow> v | _ \<Rightarrow> 0)"
    unfolding similarity_def l matching_acme by simp
  then show ?thesis by (simp add: binary64_24_29)
qed

lemma round4_acme: "round4 (7454233865992545 / 9007199254740992) = 2069 / 2500"
proof -
  have fl: "\<lfloor>4658896166245340625 / 562949953421312 :: rat\<rfloor> = 8275" by (simp add: floor_eq_iff)
  show ?thesis by (simp add: fl round4_def round_half_even_def Let_def)
qed

text \<open>Rounding reads the float, not the ratio: the ratio 3/160 is 0.01875, its float lies
  below it, and is rounded to 0.0187.\<close>

lemma round4_below_tie:
  "round_binary64 3 160 = Finite (5404319552844595 / 288230376151711744)
   \<and> round4 (5404319552844595 / 288230376151711744) = 187 / 10000"
proof -
  have fl: "\<lfloor>27021597764222976 / 5 :: rat\<rfloor> = 5404319552844595" by (simp add: floor_eq_iff)
  have a: "round_binary64 3 160 = Finite (5404319552844595 / 288230376151711744)"
    by (simp add: fl round_binary64_def floor_log2_def pow2_def round_half_even_def Let_def)
  have fl2: "\<lfloor>3377699720527871875 / 18014398509481984 :: rat\<rfloor> = 187" by (simp add: floor_eq_iff)
  have b: "round4 (5404319552844595 / 288230376151711744) = 187 / 10000"
    by (simp add: fl2 round4_def round_half_even_def Let_def)
  show ?thesis using a b by (intro conjI)
qed

lemma norm_acme:
  "norm_text ''acme robotic'' = ''acme robotic''"
  "norm_text ''Acme Robotics Ltd'' = ''acme robotics ltd''"
  by (simp_all add: norm_text_def lower_def lower_char_def is_lower_alnum_def strip_def char_eval)


lemma summarize_patent_sel:
  "ps_similarity (summarize_patent today row q) =
     round4 (if applicant_name (snd row) \<noteq> [] then similarity q (norm_text (applicant_name (snd row))) else 0)"
  "ps_active (summarize_patent today row q) =
     patent_active (patent_status (snd row)) (date_not_in_force (snd row))"
  "ps_applicant_name (summarize_patent today row q) = applicant_name (snd row)"
  by (simp_all add: summarize_patent_def Let_def)

lemma ps_similarity_acme:
  assumes "applicant_name r = ''Acme Robotics Ltd''"
  shows "ps_similarity (summarize_patent today (i, r) (norm_text ''acme robotic'')) = 2069 / 2500"
  unfolding summarize_patent_sel by (simp add: assms norm_acme similarity_acme round4_acme)

lemma excel_date_empty: "excel_date_to_iso [] = Inr []"
  by (simp add: excel_date_to_iso_def strip_def)

lemma clean_cell_acme:
  "clean_cell [] = []" "clean_cell ''GB1'' = ''GB1''" "clean_cell ''GB2'' = ''GB2''"
  "clean_cell ''Acme Robotics Ltd'' = ''Acme Robotics Ltd''" "clean_cell ''Granted'' = ''Granted''"
  by (simp_all add: clean_cell_def strip_def NULL_VALUES_def char_eval)

lemma patent_of_row_acme:
  "patent_of_row path [''Application number'', ''Applicant name'', ''Date not in force'', ''Status'']
     [n, ''Acme Robotics Ltd'', [], ''Granted'']
   = Inr (patent_with (clean_cell n) ''Acme Robotics Ltd'' ''Granted'' path)"
  by (simp add: patent_of_row_def dict_zip_def dict_get_def bind_def clean_cell_acme
      excel_date_empty patent_with_def)

lemma ingest_acme:
  "ingest_patents empty_db acme_xlsx =
     Inr \<lparr>marks = [], patents = [(1, patent_with ''GB1'' ''Acme Robotics Ltd'' ''Granted'' ''patents.xlsx''),
                                 (2, patent_with ''GB2'' ''Acme Robotics Ltd'' ''Granted'' ''patents.xlsx'')]\<rparr>"
  by (simp add: ingest_patents_def acme_xlsx_def patent_of_row_acme clean_cell_acme
      insert_patents_def next_rowid_def empty_db_def)


lemma main_acme:
  "main [] [acme_xlsx] [] =
     Built \<lparr>marks = [], patents = [(1, patent_with ''GB1'' ''Acme Robotics Ltd'' ''Granted'' ''patents.xlsx''),
                                   (2, patent_with ''GB2'' ''Acme Robotics Ltd'' ''Granted'' ''patents.xlsx'')]\<rparr>"
  by (simp add: main_def ingest_acme)

lemma patent_with_sel:
  "applicant_name (patent_with n a st p) = a" "application_number (patent_with n a st p) = n"
  "publication_number (patent_with n a st p) = []" "date_not_in_force (patent_with n a st p) = []"
  "patent_status (patent_with n a st p) = st"
  by (simp_all add: patent_with_def)

lemma strip_acme: "strip ''acme robotic'' = ''acme robotic''" "strip ''US'' = ''US''"
  by (simp_all add: strip_def char_eval)

lemma resolve_us: "resolve_countries ''US'' = [''United States'']"
  by (simp add: resolve_countries_def lower_def lower_char_def strip_def char_eval)

lemma query_patents_acme:
  "query_patents by_id
     \<lparr>marks = ms, patents = [(i, patent_with ''GB1'' ''Acme Robotics Ltd'' ''Granted'' ''patents.xlsx''),
                             (j, patent_with ''GB2'' ''Acme Robotics Ltd'' ''Granted'' ''patents.xlsx'')]\<rparr>
     (norm_text ''acme robotic'') 25 = []"
  by (simp add: query_patents_def by_id_def norm_acme patent_with_sel sql_limit_def)

lemma patent_active_granted: "patent_active ''Granted'' []"
  by (simp add: patent_active_def lower_def lower_char_def strip_def char_eval Let_def)


text \<open>
  Claim C9. The summary of a patent row whose applicant is "Acme Robotics Ltd", for the
  query text "acme robotic", names that applicant and has the similarity 0.8276: the
  ratio 24/29 of the two normalised texts, rounded to four places. It is below 0.85.
  The summary is active exactly when the row has no date not in force and its status
  names none of lapsed, ceased, withdrawn, revoked.
\<close>

theorem summarize_patent_acme:
  assumes "applicant_name r = ''Acme Robotics Ltd''"
  shows "ps_applicant_name (summarize_patent today (i, r) (norm_text ''acme robotic'')) = ''Acme Robotics Ltd''
       \<and> ps_similarity (summarize_patent today (i, r) (norm_text ''acme robotic'')) = 8276 / 10000
       \<and> ps_similarity (summarize_patent today (i, r) (norm_text ''acme robotic'')) < 85 / 100
       \<and> (ps_active (summarize_patent today (i, r) (norm_text ''acme robotic'')) \<longleftrightarrow>
            date_not_in_force r = []
            \<and> \<not> list_ex (contains (lower (strip (patent_status r))))
                   [''lapsed'', ''ceased'', ''withdrawn'', ''revoked''])"
proof -
  let ?S = "summarize_patent today (i, r) (norm_text ''acme robotic'')"
  have 1: "ps_applicant_name ?S = ''Acme Robotics Ltd''"
    unfolding summarize_patent_sel using assms by simp
  have s: "ps_similarity ?S = 2069 / 2500" by (rule ps_similarity_acme[OF assms])
  have 2: "ps_similarity ?S = 8276 / 10000" unfolding s by simp
  have 3: "ps_similarity ?S < 85 / 100" unfolding s by simp
  have 4: "ps_active ?S \<longleftrightarrow>
            date_not_in_force r = []
            \<and> \<not> list_ex (contains (lower (strip (patent_status r))))
                   [''lapsed'', ''ceased'', ''withdrawn'', ''revoked'']"
    unfolding summarize_patent_sel patent_active_def Let_def by auto
  show ?thesis using 1 2 3 4 by (intro conjI)
qed

theorem summarize_patent_acme_witness:
  "applicant_name (patent_with ''GB1'' ''Acme Robotics Ltd'' ''Granted'' ''patents.xlsx'') = ''Acme Robotics Ltd''
   \<and> ps_similarity (summarize_patent \<lparr>year = 2024, month = 3, day = 1\<rparr>
         (1, patent_with ''GB1'' ''Acme Robotics Ltd'' ''Granted'' ''patents.xlsx'')
         (norm_text ''acme robotic'')) = 8276 / 10000
   \<and> ps_active (summarize_patent \<lparr>year = 2024, month = 3, day = 1\<rparr>
         (1, patent_with ''GB1'' ''Acme Robotics Ltd'' ''Granted'' ''patents.xlsx'')
         (norm_text ''acme robotic''))"
proof -
  let ?r = "patent_with ''GB1'' ''Acme Robotics Ltd'' ''Granted'' ''patents.xlsx''"
  let ?S = "summarize_patent \<lparr>year = 2024, month = 3, day = 1\<rparr> (1, ?r) (norm_text ''acme robotic'')"
  have a: "applicant_name ?r = ''Acme Robotics Ltd''" by (simp add: patent_with_sel)
  have low: "lower (strip ''Granted'') = ''granted''"
    by (simp add: lower_def lower_char_def strip_def char_eval)
  have c: "date_not_in_force ?r = []
            \<and> \<not> list_ex (contains (lower (strip (patent_status ?r))))
                   [''lapsed'', ''ceased'', ''withdrawn'', ''revoked'']"
    by (simp add: patent_with_sel low)
  note t = summarize_patent_acme [OF a, of "\<lparr>year = 2024, month = 3, day = 1\<rparr>" 1]
  have 2: "ps_similarity ?S = 8276 / 10000" using t by blast
  have 3: "ps_active ?S" using t c by blast
  show ?thesis using a 2 3 by (intro conjI)
qed

text \<open>The index built from the two spreadsheet rows, and what the query engine answers
  on it: the patent query returns no row, since \<open>LIKE\<close> compares the lower-case query
  with the applicant as written; the request is refused, since the index has no mark
  of the country; with a mark of the country in the index it is answered with no
  patent; and the similarity of the applicant is 0.8276, not above 0.85.\<close>

theorem summarize_patent_acme_counterexample:
  "main [] [acme_xlsx] [] =
     Built \<lparr>marks = [], patents = [(1, patent_with ''GB1'' ''Acme Robotics Ltd'' ''Granted'' ''patents.xlsx''),
                                   (2, patent_with ''GB2'' ''Acme Robotics Ltd'' ''Granted'' ''patents.xlsx'')]\<rparr>
   \<and> query_patents by_id
       \<lparr>marks = [], patents = [(1, patent_with ''GB1'' ''Acme Robotics Ltd'' ''Granted'' ''patents.xlsx''),
                               (2, patent_with ''GB2'' ''Acme Robotics Ltd'' ''Granted'' ''patents.xlsx'')]\<rparr>
       (norm_text ''acme robotic'') 25 = []
   \<and> check \<lparr>year = 2024, month = 3, day = 1\<rparr> by_id
       (Inr \<lparr>marks = [], patents = [(1, patent_with ''GB1'' ''Acme Robotics Ltd'' ''Granted'' ''patents.xlsx''),
                                    (2, patent_with ''GB2'' ''Acme Robotics Ltd'' ''Granted'' ''patents.xlsx'')]\<rparr>)
       acme_request = Inl ''No records found for this country in the current index.''
   \<and> (\<exists>r. check \<lparr>year = 2024, month = 3, day = 1\<rparr> by_id
       (Inr \<lparr>marks = [(1, mark_with ''US1'' ''Zeta'' ''United States'')],
             patents = [(1, patent_with ''GB1'' ''Acme Robotics Ltd'' ''Granted'' ''patents.xlsx''),
                        (2, patent_with ''GB2'' ''Acme Robotics Ltd'' ''Granted'' ''patents.xlsx'')]\<rparr>)
       acme_request = Inr r \<and> resp_patents r = [] \<and> resp_patent_count r = 0)
   \<and> ps_similarity (summarize_patent \<lparr>year = 2024, month = 3, day = 1\<rparr>
         (1, patent_with ''GB1'' ''Acme Robotics Ltd'' ''Granted'' ''patents.xlsx'')
         (norm_text ''acme robotic'')) = 8276 / 10000
   \<and> \<not> (85 / 100 < (8276 / 10000 :: rat))"
proof -
  let ?p1 = "patent_with ''GB1'' ''Acme Robotics Ltd'' ''Granted'' ''patents.xlsx''"
  let ?p2 = "patent_with ''GB2'' ''Acme Robotics Ltd'' ''Granted'' ''patents.xlsx''"
  let ?d = "\<lparr>year = 2024, month = 3, day = 1\<rparr>"
  have q: "query_patents by_id \<lparr>marks = ms, patents = [(i, ?p1), (j, ?p2)]\<rparr> (norm_text ''acme robotic'') 25 = []" for ms i j
    by (rule query_patents_acme)
  have 3: "check ?d by_id (Inr \<lparr>marks = [], patents = [(1, ?p1), (2, ?p2)]\<rparr>) acme_request
      = Inl ''No records found for this country in the current index.''"
    by (simp add: check_def acme_request_def strip_acme country_available_def resolve_us sql_limit_def Let_def)
  have cm: "country (mark_with ''US1'' ''Zeta'' ''United States'') = ''United States''"
    by (simp add: mark_with_def)
  have av: "country_available \<lparr>marks = [(i, mark_with ''US1'' ''Zeta'' ''United States'')],
             patents = ps\<rparr> ''US''" for i ps
    by (simp add: country_available_def resolve_us sql_limit_def cm)
  have 4: "\<exists>r. check ?d by_id
       (Inr \<lparr>marks = [(1, mark_with ''US1'' ''Zeta'' ''United States'')],
             patents = [(1, ?p1), (2, ?p2)]\<rparr>)
       acme_request = Inr r \<and> resp_patents r = [] \<and> resp_patent_count r = 0"
    by (simp add: check_def acme_request_def strip_acme av q sort_desc_def Let_def)
  have 5: "ps_similarity (summarize_patent ?d (1, ?p1) (norm_text ''acme robotic'')) = 8276 / 10000"
    using ps_similarity_acme[of ?p1 ?d 1] by (simp add: patent_with_sel)
  have 6: "\<not> (85 / 100 < (8276 / 10000 :: rat))" by simp
  show ?thesis using main_acme q 3 4 5 6 by (intro conjI)
qed

subsection \<open>Patents and the country\<close>


lemma check_refused:
  assumes "\<not> country_available con (strip (req_country p))"
  shows "\<exists>msg. check today pl (Inr con) p = Inl msg"
  using assms by (simp add: check_def Let_def)










end
